theory Spec2Isabelle
  imports Main "HOL-Library.AList" "HOL-Library.Sublist"
begin

section \<open>JavaScript values, errors and completions\<close>

text \<open>
  The hook inspects configuration values and model definitions with \<^verbatim>\<open>typeof\<close> and
  \<^verbatim>\<open>Array.isArray\<close>, so the values it looks at are modelled with one constructor per
  JavaScript kind. A dictionary is the list of its own properties in enumeration order;
  a function value is a reference into a table of function bodies.
\<close>

datatype jsval =
    JUndefined
  | JNull
  | JBool bool
  | JNum int
  | JStr string
  | JArr "jsval list"
  | JObj "(string \<times> jsval) list"
  | JFun nat

fun typeof :: "jsval \<Rightarrow> string" where
  "typeof JUndefined = ''undefined''"
| "typeof JNull = ''object''"
| "typeof (JBool b) = ''boolean''"
| "typeof (JNum n) = ''number''"
| "typeof (JStr s) = ''string''"
| "typeof (JArr xs) = ''object''"
| "typeof (JObj ps) = ''object''"
| "typeof (JFun f) = ''function''"

fun isArray :: "jsval \<Rightarrow> bool" where
  "isArray (JArr xs) = True"
| "isArray v = False"

fun truthy :: "jsval \<Rightarrow> bool" where
  "truthy JUndefined = False"
| "truthy JNull = False"
| "truthy (JBool b) = b"
| "truthy (JNum n) = (n \<noteq> 0)"
| "truthy (JStr s) = (s \<noteq> [])"
| "truthy v = True"

text \<open>
  A thrown value is an \<^verbatim>\<open>Error\<close> object with its \<^verbatim>\<open>name\<close>, its \<^verbatim>\<open>message\<close> and its
  \<^verbatim>\<open>stack\<close>. The engine captures the call frames when the object is constructed and
  renders the stack text when \<^verbatim>\<open>stack\<close> is first read, from the name and the message
  the object has at that moment. So the stack is either not rendered yet (\<open>None\<close>) or a
  text; a text is the concatenation of its pieces, and \<open>CallFrames\<close> stands for the
  frames this object captured. A frozen object ignores assignments to its properties
  (the files are not in strict mode). A thrown primitive, which takes no assignment
  either, is not an \<^verbatim>\<open>Error\<close> object and is outside this type.
\<close>

datatype piece = Text string | CallFrames

record js_error =
  name :: string
  message :: string
  stack :: "piece list option"
  frozen :: bool

text \<open>\<^verbatim>\<open>Error.prototype.toString\<close>: the header line of a rendered stack.\<close>

definition toString :: "js_error \<Rightarrow> string" where
  "toString e =
     (if name e = [] then message e
      else if message e = [] then name e
      else name e @ '': '' @ message e)"

text \<open>The read \<^verbatim>\<open>e.stack\<close>.\<close>

definition read_stack :: "js_error \<Rightarrow> piece list" where
  "read_stack e = (case stack e of Some ps \<Rightarrow> ps | None \<Rightarrow> [Text (toString e), CallFrames])"

text \<open>\<^verbatim>\<open>new Error(m)\<close>: nothing has read its stack yet.\<close>

definition new_Error :: "string \<Rightarrow> js_error" where
  "new_Error m = \<lparr>name = ''Error'', message = m, stack = None, frozen = False\<rparr>"

text \<open>The \<^verbatim>\<open>TypeError\<close> of reading property \<open>p\<close> of \<^verbatim>\<open>null\<close> or \<^verbatim>\<open>undefined\<close>.\<close>

definition type_error :: "string \<Rightarrow> string \<Rightarrow> js_error" where
  "type_error what p =
     \<lparr>name = ''TypeError'',
      message = ''Cannot read properties of '' @ what @ '' (reading '' @ [CHR 0x27] @ p @ [CHR 0x27] @ '')'',
      stack = None, frozen = False\<rparr>"

text \<open>How a call ends: it returns, or it throws.\<close>

datatype completion = Normal | Throw js_error

text \<open>The two source files of the hook: \<^verbatim>\<open>src/index.js\<close> and \<^verbatim>\<open>src/unnamed/part_000\<close>.\<close>

datatype variant = IndexJs | Part000

section \<open>Configuration and \<^verbatim>\<open>configure()\<close>\<close>

text \<open>
  The part of \<^verbatim>\<open>sails.config\<close> the hook reads: \<^verbatim>\<open>globals\<close>, \<^verbatim>\<open>mongoose.uri\<close>,
  \<^verbatim>\<open>mongoose.connectionOpts\<close> and \<^verbatim>\<open>paths.models\<close>.
\<close>

record config =
  globals :: jsval
  mongoose_uri :: jsval
  mongoose_connectionOpts :: jsval
  paths_models :: jsval

text \<open>
  The read \<^verbatim>\<open>x.models\<close>: a \<^verbatim>\<open>TypeError\<close> on \<^verbatim>\<open>null\<close> and \<^verbatim>\<open>undefined\<close>, the own
  property of a dictionary, and \<^verbatim>\<open>undefined\<close> on every other value.
\<close>

fun get_models :: "jsval \<Rightarrow> js_error + jsval" where
  "get_models JUndefined = Inl (type_error ''undefined'' ''models'')"
| "get_models JNull = Inl (type_error ''null'' ''models'')"
| "get_models (JObj ps) = Inr (case map_of ps ''models'' of None \<Rightarrow> JUndefined | Some x \<Rightarrow> x)"
| "get_models v = Inr JUndefined"

definition msg_globals :: string where
  "msg_globals =
     ''If provided, `sails.config.globals.models` must be either `true` or `false`.\<newline>'' @
     ''If `true`, instantiated Mongoose models will be exposed as global variables.''"

fun msg_uri :: "variant \<Rightarrow> string" where
  "msg_uri IndexJs =
     ''Expected Mongo connection URI (a string) to be provided as `sails.config.mongoose.uri`, but the provided Mongo URI is invalid.\<newline>'' @
     ''See https://docs.mongodb.org/manual/reference/connection-string/ for help.''"
| \<open>msg_uri Part000 =
     ''\<newline>Expected Mongo connection URI (a string) to be provided as "sails.config.mongoose.uri",\<newline>'' @
     ''but the provided Mongo URI is invalid.\<newline>'' @
     ''See https://docs.mongodb.org/manual/reference/connection-string/ for help.\<newline>'' @
     ''        ''\<close>

fun msg_connectionOpts :: "variant \<Rightarrow> string" where
  "msg_connectionOpts IndexJs =
     ''If provided, `sails.config.mongoose.connectionOpts` must be a dictionary of additional options to pass to Mongoose.\<newline>'' @
     ''See http://mongoosejs.com/docs/connections.html for a full list of available options.''"
| \<open>msg_connectionOpts Part000 =
     ''\<newline>If provided, "sails.config.mongoose.connectionOpts" must be a dictionary of additional options to pass to Mongoose.\<newline>'' @
     ''See http://mongoosejs.com/docs/connections.html for a full list of available options.\<newline>'' @
     ''        ''\<close>

text \<open>
  \<^verbatim>\<open>configure\<close> reads the configuration and nothing else. In \<^verbatim>\<open>index.js\<close> the first
  test is \<^verbatim>\<open>typeof globals === 'object' && typeof globals.models !== 'boolean'\<close>, whose
  right operand throws a \<^verbatim>\<open>TypeError\<close> when \<^verbatim>\<open>globals\<close> is \<^verbatim>\<open>null\<close>; the other file
  has no such test.
\<close>

fun configure :: "variant \<Rightarrow> config \<Rightarrow> completion" where
  "configure IndexJs cfg =
     (case (if typeof (globals cfg) = ''object''
            then (case get_models (globals cfg) of
                    Inl e \<Rightarrow> Inl e
                  | Inr m \<Rightarrow> Inr (typeof m \<noteq> ''boolean''))
            else Inr False) of
        Inl e \<Rightarrow> Throw e
      | Inr True \<Rightarrow> Throw (new_Error msg_globals)
      | Inr False \<Rightarrow>
          if typeof (mongoose_uri cfg) \<noteq> ''string''
          then Throw (new_Error (msg_uri IndexJs))
          else if typeof (mongoose_connectionOpts cfg) \<noteq> ''object''
                  \<or> isArray (mongoose_connectionOpts cfg)
          then Throw (new_Error (msg_connectionOpts IndexJs))
          else Normal)"
| "configure Part000 cfg =
     (if typeof (mongoose_uri cfg) \<noteq> ''string''
      then Throw (new_Error (msg_uri Part000))
      else if typeof (mongoose_connectionOpts cfg) \<noteq> ''object''
              \<or> isArray (mongoose_connectionOpts cfg)
      then Throw (new_Error (msg_connectionOpts Part000))
      else Normal)"

text \<open>The descriptive errors \<^verbatim>\<open>configure\<close> constructs itself, per file.\<close>

fun config_errors :: "variant \<Rightarrow> js_error list" where
  "config_errors IndexJs =
     [new_Error msg_globals, new_Error (msg_uri IndexJs), new_Error (msg_connectionOpts IndexJs)]"
| "config_errors Part000 =
     [new_Error (msg_uri Part000), new_Error (msg_connectionOpts Part000)]"

section \<open>Process state, events and collaborators\<close>

text \<open>
  Everything the hook does to the outside is recorded as an event, in order: log lines,
  the connection attempt, the call of the module loader, each schema construction, each
  call of a \<^verbatim>\<open>constructSchema\<close> interceptor, each \<^verbatim>\<open>mongoose.model\<close> call, and each
  invocation of the external callback \<^verbatim>\<open>_cb\<close> with its argument.
\<close>

datatype level = LvError | LvWarn | LvInfo | LvVerbose

datatype event =
    Log level string "jsval list"
  | Connect jsval jsval
  | LoadModels
  | NewSchema jsval
  | ConstructSchema nat jsval
  | Model string
  | Callback "js_error option"

text \<open>A model definition as the module loader hands it over.\<close>

record modeldef =
  schema :: jsval
  constructSchema :: jsval
  globalId :: string

type_synonym modules = "(string \<times> modeldef) list"

text \<open>
  The mutable state: the closure variable of \<^verbatim>\<open>initialize\<close>, the event trace,
  \<^verbatim>\<open>sails.mongoose\<close>, the registry \<^verbatim>\<open>sails.models\<close>, the global object, and the two
  properties the hook sets on model objects. A value of type \<open>'m\<close> is a reference to the
  object \<^verbatim>\<open>mongoose.model\<close> returned: the registry and the global object hold
  references, and \<open>globalId_of\<close> and \<open>identity_of\<close> give the properties \<^verbatim>\<open>globalId\<close> and
  \<^verbatim>\<open>identity\<close> of the object referred to (\<open>None\<close> when it has none), so that one object
  registered under two identities has one pair of properties.
  Dictionaries are association lists in enumeration order; \<^verbatim>\<open>o[k] = x\<close> is
  \<^const>\<open>AList.update\<close>, which overwrites in place or appends. \<open>global_scope\<close> lists the
  names of the global object that evaluate to a model object.
\<close>

record 'm world =
  hasAlreadyTriggeredCallback :: bool
  trace :: "event list"
  mongoose_exposed :: bool
  models :: "(string \<times> 'm) list"
  global_scope :: "(string \<times> 'm) list"
  globalId_of :: "'m \<Rightarrow> string option"
  identity_of :: "'m \<Rightarrow> string option"

definition emit :: "event \<Rightarrow> 'm world \<Rightarrow> 'm world" where
  "emit ev w = w\<lparr>trace := trace w @ [ev]\<rparr>"

text \<open>
  The collaborators. \<^verbatim>\<open>mongoose.connect\<close> resolves or rejects. The module loader either
  throws before calling back, or invokes \<^verbatim>\<open>modulesLoaded\<close> with the listed arguments,
  within its own call (\<open>Sync\<close>) or in later turns of the event loop (\<open>Async\<close>).
  \<open>Schema\<close> is \<^verbatim>\<open>new sails.mongoose.Schema\<close>, \<open>call f\<close> the body of the function value
  \<open>JFun f\<close> applied to the schema dictionary and the process-wide context, \<open>mk_model\<close> is
  \<^verbatim>\<open>sails.mongoose.model\<close>, which returns a reference to a model object (the same
  reference twice, if it returns the same object twice), and \<open>ext_cb\<close> is the callback \<^verbatim>\<open>_cb\<close> given to \<^verbatim>\<open>initialize\<close>,
  which returns or throws.
\<close>

datatype connect_outcome = Resolved | Rejected js_error

datatype delivery = Sync | Async

datatype loader =
    LoadThrows js_error
  | LoadCallsBack delivery "(js_error option \<times> modules) list"

record ('s, 'm) env =
  config :: config
  connect :: connect_outcome
  loadModels :: loader
  Schema :: "jsval \<Rightarrow> js_error + 's"
  call :: "nat \<Rightarrow> jsval \<Rightarrow> 'm world \<Rightarrow> js_error + 's"
  mk_model :: "string \<Rightarrow> 's \<Rightarrow> js_error + 'm"
  ext_cb :: "js_error option \<Rightarrow> completion"

section \<open>The guarded completion callback\<close>

fun msg_called_again :: "variant \<Rightarrow> string" where
  "msg_called_again IndexJs =
     ''`initialize` function of Mongoose hook (ORM hook override) was called again, but that should never happen more than once!''"
| \<open>msg_called_again Part000 =
     ''\<newline>"initialize" function of Mongoose hook (ORM hook override) was called again, but that\<newline>'' @
     ''should never happen more than once!\<newline>'' @
     ''            ''\<close>

fun msg_crash :: "variant \<Rightarrow> string" where
  "msg_crash IndexJs =
     ''Proceeding to crash the server... (this is to avoid creating any weird race conditions that could potentially mess up your data)''"
| "msg_crash Part000 =
     ''\<newline>Proceeding to crash the server... (this is to avoid creating any weird race conditions\<newline>'' @
     ''that could potentially mess up your data)\<newline>'' @
     ''            ''"

text \<open>
  The wrapper \<^verbatim>\<open>cb\<close>. Its argument is absent (\<open>None\<close>) or an error object, which is
  truthy. Once the flag is set, an error is logged twice and thrown, and a call without
  error is logged as a warning and returns; otherwise the flag is set and \<^verbatim>\<open>_cb(err)\<close> runs.
\<close>

definition cb :: "variant \<Rightarrow> ('s, 'm) env \<Rightarrow> js_error option \<Rightarrow> 'm world \<Rightarrow> completion \<times> 'm world" where
  "cb v env err w =
     (if hasAlreadyTriggeredCallback w then
        (case err of
           Some e \<Rightarrow>
             (Throw e,
              emit (Log LvError (msg_crash v) []) (emit (Log LvError (msg_called_again v) []) w))
         | None \<Rightarrow> (Normal, emit (Log LvWarn (msg_called_again v) []) w))
      else
        (ext_cb env err, emit (Callback err) (w\<lparr>hasAlreadyTriggeredCallback := True\<rparr>)))"

section \<open>Schema compilation\<close>

fun msg_invalid_schema :: "variant \<Rightarrow> string \<Rightarrow> string" where
  "msg_invalid_schema IndexJs identity =
     ''Invalid `schema` provided in model (`'' @ identity @
     ''`).  If provided, `schema` must be a dictionary.''"
| \<open>msg_invalid_schema Part000 identity =
     ''\<newline>Invalid "schema" provided in model "'' @ identity @ ''".\<newline>'' @
     ''If provided, "schema" must be a dictionary.\<newline>'' @
     ''                ''\<close>

fun msg_invalid_constructSchema :: "variant \<Rightarrow> string \<Rightarrow> string" where
  "msg_invalid_constructSchema IndexJs identity =
     ''Invalid `constructSchema` interceptor provided in model (`'' @ identity @
     ''`).  If provided, `constructSchema` must be a function.''"
| \<open>msg_invalid_constructSchema Part000 identity =
     ''\<newline>Invalid "constructSchema" interceptor provided in model "'' @ identity @ ''".\<newline>'' @
     ''If provided, "constructSchema" must be a function.\<newline>'' @
     ''                ''\<close>

text \<open>
  The text put in front of the message and of the stack of an error thrown by an
  interceptor, and the text the template literal of the second file puts behind it.
\<close>

fun details_prefix :: "variant \<Rightarrow> string \<Rightarrow> string" where
  "details_prefix IndexJs identity =
     ''Encountered an error when running `constructSchema` interceptor provided for model (`'' @
     identity @ ''`). Details:\<newline>''"
| \<open>details_prefix Part000 identity =
     ''\<newline>Encountered an error when running "constructSchema" interceptor provided for model\<newline>'' @
     ''"'' @ identity @ ''". Details:\<newline>''\<close>

fun details_suffix :: "variant \<Rightarrow> string" where
  "details_suffix IndexJs = []"
| "details_suffix Part000 = ''\<newline>'' @ ''                  ''"

text \<open>
  The \<^verbatim>\<open>catch\<close> block around the interceptor call: \<^verbatim>\<open>e.message\<close> is assigned first, and
  \<^verbatim>\<open>e.stack\<close> is read after that, so a stack that was not rendered before is rendered from
  the new message. On a frozen error both assignments are ignored.
\<close>

fun wrap_stack :: "variant \<Rightarrow> string \<Rightarrow> piece list \<Rightarrow> piece list" where
  "wrap_stack IndexJs identity ps = Text (details_prefix IndexJs identity) # ps"
| "wrap_stack Part000 identity ps =
     Text (details_prefix Part000 identity) # ps @ [Text (details_suffix Part000)]"

definition rewrap :: "variant \<Rightarrow> string \<Rightarrow> js_error \<Rightarrow> js_error" where
  "rewrap v identity e =
     (if frozen e then e
      else
        (let e1 = e\<lparr>message := details_prefix v identity @ message e @ details_suffix v\<rparr>
         in e1\<lparr>stack := Some (wrap_stack v identity (read_stack e1))\<rparr>))"

text \<open>
  The body of the first loop for one definition: the schema object or the error thrown,
  the definition as the body leaves it (\<^verbatim>\<open>def.schema = {}\<close> when it was undefined), and
  the state.
\<close>

definition compile_def ::
  "variant \<Rightarrow> ('s, 'm) env \<Rightarrow> string \<Rightarrow> modeldef \<Rightarrow> 'm world \<Rightarrow> (js_error + 's) \<times> modeldef \<times> 'm world" where
  "compile_def v env identity d0 w =
     (let d = (if typeof (schema d0) = ''undefined'' then d0\<lparr>schema := JObj []\<rparr> else d0) in
      if typeof (schema d) \<noteq> ''object'' \<or> isArray (schema d) then
        (Inl (new_Error (msg_invalid_schema v identity)), d, w)
      else
        (case constructSchema d of
           JUndefined \<Rightarrow> (Schema env (schema d), d, emit (NewSchema (schema d)) w)
         | JFun f \<Rightarrow>
             (case call env f (schema d) w of
                Inl e \<Rightarrow> (Inl (rewrap v identity e), d, emit (ConstructSchema f (schema d)) w)
              | Inr s \<Rightarrow> (Inr s, d, emit (ConstructSchema f (schema d)) w))
         | _ \<Rightarrow> (Inl (new_Error (msg_invalid_constructSchema v identity)), d, w)))"

text \<open>
  \<^verbatim>\<open>for (const identity in modules)\<close>, over the keys in enumeration order, with the
  dictionaries \<^verbatim>\<open>modules\<close> and \<^verbatim>\<open>schemas\<close>. The first throw ends the loop.
\<close>

fun compile_schemas ::
  "variant \<Rightarrow> ('s, 'm) env \<Rightarrow> string list \<Rightarrow> modules \<Rightarrow> (string \<times> 's) list \<Rightarrow> 'm world
     \<Rightarrow> completion \<times> modules \<times> (string \<times> 's) list \<times> 'm world" where
  "compile_schemas v env [] ms ss w = (Normal, ms, ss, w)"
| "compile_schemas v env (identity # ids) ms ss w =
     (case map_of ms identity of
        None \<Rightarrow> (Throw (type_error ''undefined'' ''schema''), ms, ss, w)
      | Some d0 \<Rightarrow>
          (case compile_def v env identity d0 w of
             (Inl e, d, w') \<Rightarrow> (Throw e, AList.update identity d ms, ss, w')
           | (Inr s, d, w') \<Rightarrow>
               compile_schemas v env ids (AList.update identity d ms)
                 (AList.update identity s ss) w'))"

section \<open>Model registration and global exposure\<close>

text \<open>
  \<^verbatim>\<open>for (const identity in schemas)\<close>, over the entries of \<^verbatim>\<open>schemas\<close>: the reference
  \<^verbatim>\<open>mongoose.model\<close> returns goes into the registry, and the two properties are set on
  the object it refers to.
\<close>

fun register_models ::
  "('s, 'm) env \<Rightarrow> (string \<times> 's) list \<Rightarrow> modules \<Rightarrow> 'm world \<Rightarrow> completion \<times> 'm world" where
  "register_models env [] ms w = (Normal, w)"
| "register_models env ((identity, s) # rest) ms w =
     (case map_of ms identity of
        None \<Rightarrow> (Throw (type_error ''undefined'' ''globalId''), w)
      | Some d \<Rightarrow>
          (case mk_model env (globalId d) s of
             Inl e \<Rightarrow> (Throw e, emit (Model (globalId d)) w)
           | Inr m \<Rightarrow>
               register_models env rest ms
                 ((emit (Model (globalId d)) w)
                    \<lparr>models := AList.update identity m (models w),
                      globalId_of := (globalId_of w)(m := Some (globalId d)),
                      identity_of := (identity_of w)(m := Some identity)\<rparr>)))"

text \<open>
  The assignment \<^verbatim>\<open>global[k] = x\<close>. The global object's properties \<^verbatim>\<open>NaN\<close>,
  \<^verbatim>\<open>Infinity\<close> and \<^verbatim>\<open>undefined\<close> are read-only, and outside strict mode an assignment
  to them is ignored.
\<close>

definition read_only_globals :: "string list" where
  "read_only_globals = [''NaN'', ''Infinity'', ''undefined'']"

definition set_global :: "string \<Rightarrow> 'm \<Rightarrow> 'm world \<Rightarrow> 'm world" where
  "set_global k x w =
     (if k \<in> set read_only_globals then w
      else w\<lparr>global_scope := AList.update k x (global_scope w)\<rparr>)"

text \<open>
  The property key \<^verbatim>\<open>Model.globalId\<close>: the property read from the object, and the
  string \<^verbatim>\<open>'undefined'\<close> when the object has none.
\<close>

definition global_key :: "'m world \<Rightarrow> 'm \<Rightarrow> string" where
  "global_key w m = (case globalId_of w m of None \<Rightarrow> ''undefined'' | Some g \<Rightarrow> g)"

text \<open>\<^verbatim>\<open>for (const identity in sails.models) global[Model.globalId] = Model\<close>.\<close>

fun expose_globals :: "(string \<times> 'm) list \<Rightarrow> 'm world \<Rightarrow> 'm world" where
  "expose_globals [] w = w"
| "expose_globals ((identity, m) # rest) w =
     expose_globals rest (set_global (global_key w m) m w)"

text \<open>
  The inner \<^verbatim>\<open>try\<close> block of \<^verbatim>\<open>modulesLoaded\<close> up to, and without, its final
  \<^verbatim>\<open>return cb()\<close>: compile every schema, reset the registry, register every model, and
  expose the models when \<^verbatim>\<open>typeof sails.config.globals === 'object'\<close> and
  \<^verbatim>\<open>sails.config.globals.models\<close> is truthy.
\<close>

definition instantiate :: "variant \<Rightarrow> ('s, 'm) env \<Rightarrow> modules \<Rightarrow> 'm world \<Rightarrow> completion \<times> 'm world" where
  "instantiate v env modules w =
     (case compile_schemas v env (map fst modules) modules [] w of
        (Throw e, ms, ss, w1) \<Rightarrow> (Throw e, w1)
      | (Normal, ms, ss, w1) \<Rightarrow>
          (case register_models env ss ms (w1\<lparr>models := []\<rparr>) of
             (Throw e, w2) \<Rightarrow> (Throw e, w2)
           | (Normal, w2) \<Rightarrow>
               if typeof (globals (config env)) = ''object'' then
                 (case get_models (globals (config env)) of
                    Inl e \<Rightarrow> (Throw e, w2)
                  | Inr m \<Rightarrow>
                      if truthy m then (Normal, expose_globals (models w2) w2)
                      else (Normal, w2))
               else (Normal, w2)))"

section \<open>\<^verbatim>\<open>modulesLoaded\<close> and \<^verbatim>\<open>initialize()\<close>\<close>

text \<open>
  The loader's callback. An error argument goes to \<^verbatim>\<open>cb\<close> outside the \<^verbatim>\<open>try\<close>;
  otherwise whatever the \<^verbatim>\<open>try\<close> block throws, its own \<^verbatim>\<open>return cb()\<close> included, is
  caught and passed to \<^verbatim>\<open>cb\<close>.
\<close>

definition modulesLoaded ::
  "variant \<Rightarrow> ('s, 'm) env \<Rightarrow> js_error option \<Rightarrow> modules \<Rightarrow> 'm world \<Rightarrow> completion \<times> 'm world" where
  "modulesLoaded v env err modules w =
     (case err of
        Some e \<Rightarrow> cb v env (Some e) w
      | None \<Rightarrow>
          (case (case instantiate v env modules w of
                   (Throw e, w1) \<Rightarrow> (Throw e, w1)
                 | (Normal, w1) \<Rightarrow> cb v env None w1) of
             (Throw e, w2) \<Rightarrow> cb v env (Some e) w2
           | (Normal, w2) \<Rightarrow> (Normal, w2)))"

text \<open>The loader's callback invocations in order; an exception that escapes one ends them.\<close>

fun run_callbacks ::
  "variant \<Rightarrow> ('s, 'm) env \<Rightarrow> (js_error option \<times> modules) list \<Rightarrow> 'm world \<Rightarrow> completion \<times> 'm world" where
  "run_callbacks v env [] w = (Normal, w)"
| "run_callbacks v env ((err, modules) # rest) w =
     (case modulesLoaded v env err modules w of
        (Throw e, w') \<Rightarrow> (Throw e, w')
      | (Normal, w') \<Rightarrow> run_callbacks v env rest w')"

text \<open>
  \<^verbatim>\<open>initialize(_cb)\<close>. The flag starts out unset. A rejected connection is logged and
  rethrown as \<^verbatim>\<open>new Error(err.message)\<close>; that error, an exception of the loader, and an
  exception escaping a synchronous callback all reach the outer \<^verbatim>\<open>catch\<close>, which calls
  \<^verbatim>\<open>cb(e)\<close>. The result \<open>Throw e\<close> is a fault: the rejection of the promise of
  \<^verbatim>\<open>initialize\<close>, or an exception nobody catches in a later turn.
\<close>

definition initialize :: "variant \<Rightarrow> ('s, 'm) env \<Rightarrow> 'm world \<Rightarrow> completion \<times> 'm world" where
  "initialize v env w0 =
     (let w1 = w0\<lparr>hasAlreadyTriggeredCallback := False, mongoose_exposed := True\<rparr>;
          w2 = emit (Connect (mongoose_uri (config env)) (mongoose_connectionOpts (config env))) w1
      in case connect env of
           Rejected err \<Rightarrow>
             cb v env (Some (new_Error (message err)))
               (emit (Log LvError ''Failed to connect to MongoDB database'' []) w2)
         | Resolved \<Rightarrow>
             (let w3 = emit (Log LvInfo ''Connected to MongoDB database'' []) w2;
                  w4 = emit (Log LvVerbose ''Loading the app's models from `%s`...''
                              [paths_models (config env)]) w3;
                  w5 = emit LoadModels w4
              in case loadModels env of
                   LoadThrows e \<Rightarrow> cb v env (Some e) w5
                 | LoadCallsBack Sync calls \<Rightarrow>
                     (case run_callbacks v env calls w5 of
                        (Throw e, w6) \<Rightarrow> cb v env (Some e) w6
                      | (Normal, w6) \<Rightarrow> (Normal, w6))
                 | LoadCallsBack Async calls \<Rightarrow> run_callbacks v env calls w5))"

section \<open>Observations on a trace\<close>

text \<open>The arguments with which \<^verbatim>\<open>_cb\<close> was invoked, in order.\<close>

fun callbacks :: "event list \<Rightarrow> js_error option list" where
  "callbacks [] = []"
| "callbacks (Callback err # evs) = err # callbacks evs"
| "callbacks (ev # evs) = callbacks evs"

text \<open>The events of schema compilation and of model registration.\<close>

fun is_instantiation :: "event \<Rightarrow> bool" where
  "is_instantiation (NewSchema x) = True"
| "is_instantiation (ConstructSchema f x) = True"
| "is_instantiation (Model g) = True"
| "is_instantiation ev = False"

text \<open>
  Single-path execution: the loader throws without calling back, or calls back exactly
  once.
\<close>

fun single_path :: "loader \<Rightarrow> bool" where
  "single_path (LoadThrows e) = True"
| "single_path (LoadCallsBack dl calls) = (length calls = 1)"

text \<open>
  The test that guards the exposure loop: \<^verbatim>\<open>typeof sails.config.globals === 'object'\<close>
  and \<^verbatim>\<open>sails.config.globals.models\<close> truthy.
\<close>

definition exposure_enabled :: "config \<Rightarrow> bool" where
  "exposure_enabled cfg =
     (typeof (globals cfg) = ''object''
      \<and> (case get_models (globals cfg) of Inl e \<Rightarrow> False | Inr m \<Rightarrow> truthy m))"

text \<open>The log lines.\<close>

fun is_log :: "event \<Rightarrow> bool" where
  "is_log (Log l s args) = True"
| "is_log ev = False"

text \<open>
  Every registered object carries the \<^verbatim>\<open>globalId\<close> and the \<^verbatim>\<open>identity\<close> of a definition it
  is registered under (of the last such one, when \<^verbatim>\<open>mongoose.model\<close> returned it more
  than once).
\<close>

definition stamped :: "modules \<Rightarrow> 'm world \<Rightarrow> bool" where
  "stamped ms w =
     (\<forall>(k, m) \<in> set (models w). \<exists>k1 d1. (k1, m) \<in> set (models w) \<and> map_of ms k1 = Some d1
        \<and> globalId_of w m = Some (globalId d1) \<and> identity_of w m = Some k1)"

text \<open>The state in which \<^verbatim>\<open>initialize\<close> calls the loader, after the connection resolved.\<close>

definition load_state :: "('s, 'm) env \<Rightarrow> 'm world \<Rightarrow> 'm world" where
  "load_state env w =
     emit LoadModels
       (emit (Log LvVerbose ''Loading the app's models from `%s`...'' [paths_models (config env)])
         (emit (Log LvInfo ''Connected to MongoDB database'' [])
           (emit (Connect (mongoose_uri (config env)) (mongoose_connectionOpts (config env)))
             (w\<lparr>hasAlreadyTriggeredCallback := False, mongoose_exposed := True\<rparr>))))"

section \<open>Example inputs\<close>

text \<open>
  A well-formed configuration, two model definitions (one without a schema, one with an
  interceptor), and a fresh process state. The schema constructor returns its argument,
  interceptor 0 throws, interceptor 2 throws a frozen error, every other interceptor \<open>f\<close>
  returns the pair of \<open>f\<close> and its argument, and \<^verbatim>\<open>mongoose.model\<close> returns one object
  per name and schema.
\<close>

definition cfg0 :: config where
  "cfg0 = \<lparr>globals = JObj [(''models'', JBool True)],
           mongoose_uri = JStr ''mongodb://localhost:27017/app'',
           mongoose_connectionOpts = JObj [],
           paths_models = JStr ''api/models''\<rparr>"

definition modules0 :: modules where
  "modules0 =
     [(''alpha'', \<lparr>schema = JUndefined, constructSchema = JUndefined, globalId = ''Alpha''\<rparr>),
      (''beta'', \<lparr>schema = JObj [], constructSchema = JFun 1, globalId = ''Beta''\<rparr>)]"

definition env0 :: "(jsval, string \<times> jsval) env" where
  "env0 = \<lparr>config = cfg0, connect = Resolved,
           loadModels = LoadCallsBack Async [(None, modules0)],
           Schema = (\<lambda>x. Inr x),
           call = (\<lambda>f x w. if f = 0 then Inl (new_Error ''boom'')
                           else if f = 2 then Inl ((new_Error ''boom'')\<lparr>frozen := True\<rparr>)
                           else Inr (JArr [JNum (int f), x])),
           mk_model = (\<lambda>g s. Inr (g, s)),
           ext_cb = (\<lambda>err. Normal)\<rparr>"

definition world0 :: "(string \<times> jsval) world" where
  "world0 = \<lparr>hasAlreadyTriggeredCallback = False, trace = [], mongoose_exposed = False,
             models = [], global_scope = [],
             globalId_of = (\<lambda>m. None), identity_of = (\<lambda>m. None)\<rparr>"

text \<open>A single definition whose interceptor (function 0 of \<open>env0\<close>) throws.\<close>

definition modules1 :: modules where
  "modules1 = [(''alpha'', \<lparr>schema = JUndefined, constructSchema = JFun 0, globalId = ''Alpha''\<rparr>)]"

text \<open>A single definition whose \<^verbatim>\<open>schema\<close> is \<^verbatim>\<open>null\<close>.\<close>

definition modules2 :: modules where
  "modules2 = [(''user'', \<lparr>schema = JNull, constructSchema = JUndefined, globalId = ''User''\<rparr>)]"

text \<open>A single definition whose interceptor throws a frozen error.\<close>

definition modules3 :: modules where
  "modules3 = [(''alpha'', \<lparr>schema = JUndefined, constructSchema = JFun 2, globalId = ''Alpha''\<rparr>)]"

text \<open>Two definitions with one \<^verbatim>\<open>globalId\<close> and different schemas.\<close>

definition modules4 :: modules where
  "modules4 =
     [(''alpha'', \<lparr>schema = JObj [], constructSchema = JUndefined, globalId = ''Dup''\<rparr>),
      (''beta'', \<lparr>schema = JObj [(''name'', JStr ''String'')], constructSchema = JUndefined,
                 globalId = ''Dup''\<rparr>)]"

text \<open>A single definition whose \<^verbatim>\<open>globalId\<close> is the name of a read-only global.\<close>

definition modules5 :: modules where
  "modules5 = [(''nan'', \<lparr>schema = JObj [], constructSchema = JUndefined, globalId = ''NaN''\<rparr>)]"

text \<open>A configuration whose connection URI is a number.\<close>

definition cfg1 :: config where
  "cfg1 = cfg0\<lparr>mongoose_uri := JNum 27017\<rparr>"

lemmas run_defs = initialize_def modulesLoaded_def instantiate_def compile_def_def cb_def emit_def
  env0_def world0_def modules0_def modules1_def modules2_def modules3_def modules4_def
  modules5_def cfg0_def cfg1_def Let_def set_global_def global_key_def read_only_globals_def

section \<open>Traces only grow\<close>

lemma callbacks_append [simp]: "callbacks (xs @ ys) = callbacks xs @ callbacks ys"
  by (induction xs rule: callbacks.induct) simp_all

lemma trace_emit [simp]: "trace (emit ev w) = trace w @ [ev]"
  and flag_emit [simp]: "hasAlreadyTriggeredCallback (emit ev w) = hasAlreadyTriggeredCallback w"
  and models_emit [simp]: "models (emit ev w) = models w"
  and global_emit [simp]: "global_scope (emit ev w) = global_scope w"
  and globalId_of_emit [simp]: "globalId_of (emit ev w) = globalId_of w"
  and identity_of_emit [simp]: "identity_of (emit ev w) = identity_of w"
  by (simp_all add: emit_def)

lemma cb_grows: "cb v env err w = (r, w') \<Longrightarrow> \<exists>evs. trace w' = trace w @ evs"
  by (auto simp: cb_def split: if_splits option.splits)

lemma compile_def_grows:
  "compile_def v env identity d0 w = (r, d, w') \<Longrightarrow> \<exists>evs. trace w' = trace w @ evs"
  by (auto simp: compile_def_def Let_def split: if_splits jsval.splits sum.splits)

lemma compile_schemas_grows:
  "compile_schemas v env ks ms ss w = (r, ms', ss', w') \<Longrightarrow> \<exists>evs. trace w' = trace w @ evs"
proof (induction ks arbitrary: ms ss w)
  case Nil
  then show ?case by simp
next
  case (Cons k ks)
  show ?case
  proof (cases "map_of ms k")
    case None
    with Cons.prems show ?thesis by simp
  next
    case (Some d0)
    obtain r1 d w1 where cd: "compile_def v env k d0 w = (r1, d, w1)"
      by (metis prod_cases3)
    from compile_def_grows [OF cd] obtain evs1 where e1: "trace w1 = trace w @ evs1" ..
    show ?thesis
    proof (cases r1)
      case (Inl e)
      with Cons.prems Some cd e1 show ?thesis by simp
    next
      case (Inr s)
      with Cons.prems Some cd
      have "compile_schemas v env ks (AList.update k d ms) (AList.update k s ss) w1
              = (r, ms', ss', w')"
        by simp
      from Cons.IH [OF this] e1 show ?thesis by auto
    qed
  qed
qed

lemma register_models_grows:
  "register_models env ss ms w = (r, w') \<Longrightarrow> \<exists>evs. trace w' = trace w @ evs"
proof (induction ss arbitrary: w)
  case Nil
  then show ?case by simp
next
  case (Cons p ss)
  obtain k s where p: "p = (k, s)" by (cases p)
  show ?case
  proof (cases "map_of ms k")
    case None
    with Cons.prems p show ?thesis by simp
  next
    case (Some d)
    show ?thesis
    proof (cases "mk_model env (globalId d) s")
      case (Inl e)
      with Cons.prems p Some show ?thesis by auto
    next
      case (Inr m)
      with Cons.prems p Some
      have "register_models env ss ms
              ((emit (Model (globalId d)) w)
                 \<lparr>models := AList.update k m (models w),
                   globalId_of := (globalId_of w)(m := Some (globalId d)),
                   identity_of := (identity_of w)(m := Some k)\<rparr>) = (r, w')"
        by simp
      from Cons.IH [OF this] show ?thesis by auto
    qed
  qed
qed

lemma set_global_frame [simp]:
  "hasAlreadyTriggeredCallback (set_global k x w) = hasAlreadyTriggeredCallback w"
  "trace (set_global k x w) = trace w"
  "models (set_global k x w) = models w"
  "globalId_of (set_global k x w) = globalId_of w"
  "identity_of (set_global k x w) = identity_of w"
  by (simp_all add: set_global_def)

lemma global_key_set_global [simp]: "global_key (set_global k x w) m = global_key w m"
  by (simp add: global_key_def)

lemma expose_globals_frame:
  "hasAlreadyTriggeredCallback (expose_globals hs w) = hasAlreadyTriggeredCallback w
   \<and> trace (expose_globals hs w) = trace w
   \<and> models (expose_globals hs w) = models w
   \<and> globalId_of (expose_globals hs w) = globalId_of w
   \<and> identity_of (expose_globals hs w) = identity_of w"
  by (induction hs w rule: expose_globals.induct) simp_all

lemma instantiate_grows:
  assumes "instantiate v env modules w = (r, w')"
  shows "\<exists>evs. trace w' = trace w @ evs"
proof -
  obtain r1 ms ss w1
    where cs: "compile_schemas v env (map fst modules) modules [] w = (r1, ms, ss, w1)"
    by (metis prod_cases4)
  from compile_schemas_grows [OF cs] obtain evs1 where e1: "trace w1 = trace w @ evs1" ..
  show ?thesis
  proof (cases r1)
    case (Throw e)
    with assms cs e1 show ?thesis by (simp add: instantiate_def)
  next
    case Normal
    obtain r2 w2 where rm: "register_models env ss ms (w1\<lparr>models := []\<rparr>) = (r2, w2)"
      by (cases "register_models env ss ms (w1\<lparr>models := []\<rparr>)")
    from register_models_grows [OF rm] e1 obtain evs2 where e2: "trace w2 = trace w @ evs2"
      by auto
    from assms cs Normal rm e2 show ?thesis
      by (cases r2) (auto simp: instantiate_def expose_globals_frame split: if_splits sum.splits)
  qed
qed

lemma modulesLoaded_grows:
  assumes "modulesLoaded v env err modules w = (r, w')"
  shows "\<exists>evs. trace w' = trace w @ evs"
proof (cases err)
  case (Some e)
  with assms cb_grows [of v env "Some e" w r w'] show ?thesis
    by (simp add: modulesLoaded_def)
next
  case None
  obtain r1 w1 where ins: "instantiate v env modules w = (r1, w1)"
    by (cases "instantiate v env modules w")
  from instantiate_grows [OF ins] obtain evs1 where e1: "trace w1 = trace w @ evs1" ..
  show ?thesis
  proof (cases r1)
    case (Throw e)
    with assms None ins have "cb v env (Some e) w1 = (r, w')"
      by (simp add: modulesLoaded_def)
    from cb_grows [OF this] e1 show ?thesis by auto
  next
    case Normal
    obtain r2 w2 where c2: "cb v env None w1 = (r2, w2)"
      by (cases "cb v env None w1")
    from cb_grows [OF c2] e1 obtain evs2 where e2: "trace w2 = trace w @ evs2" by auto
    show ?thesis
    proof (cases r2)
      case Normal
      with assms None ins \<open>r1 = Normal\<close> c2 have "w' = w2" by (simp add: modulesLoaded_def)
      with e2 show ?thesis by auto
    next
      case (Throw e)
      with assms None ins \<open>r1 = Normal\<close> c2 have "cb v env (Some e) w2 = (r, w')"
        by (simp add: modulesLoaded_def)
      from cb_grows [OF this] e2 show ?thesis by auto
    qed
  qed
qed

lemma run_callbacks_grows:
  "run_callbacks v env calls w = (r, w') \<Longrightarrow> \<exists>evs. trace w' = trace w @ evs"
proof (induction calls arbitrary: w)
  case Nil
  then show ?case by simp
next
  case (Cons c calls)
  obtain err modules where c: "c = (err, modules)" by (cases c)
  obtain r1 w1 where ml: "modulesLoaded v env err modules w = (r1, w1)"
    by (cases "modulesLoaded v env err modules w")
  from modulesLoaded_grows [OF ml] obtain evs1 where e1: "trace w1 = trace w @ evs1" ..
  show ?case
  proof (cases r1)
    case (Throw e)
    with Cons.prems c ml e1 show ?thesis by simp
  next
    case Normal
    with Cons.prems c ml have "run_callbacks v env calls w1 = (r, w')" by simp
    from Cons.IH [OF this] e1 show ?thesis by auto
  qed
qed

lemma initialize_connects_first:
  "\<exists>evs. trace (snd (initialize v env w))
     = trace w @ Connect (mongoose_uri (config env)) (mongoose_connectionOpts (config env)) # evs"
proof -
  define w2 where
    "w2 = emit (Connect (mongoose_uri (config env)) (mongoose_connectionOpts (config env)))
            (w\<lparr>hasAlreadyTriggeredCallback := False, mongoose_exposed := True\<rparr>)"
  have t2: "trace w2 = trace w @ [Connect (mongoose_uri (config env)) (mongoose_connectionOpts (config env))]"
    by (simp add: w2_def)
  have "\<exists>evs. trace (snd (initialize v env w)) = trace w2 @ evs"
  proof (cases "connect env")
    case (Rejected err)
    define wr where "wr = emit (Log LvError ''Failed to connect to MongoDB database'' []) w2"
    have ini: "initialize v env w = cb v env (Some (new_Error (message err))) wr"
      by (simp add: initialize_def Rejected w2_def wr_def)
    obtain r w' where c: "cb v env (Some (new_Error (message err))) wr = (r, w')"
      by (cases "cb v env (Some (new_Error (message err))) wr")
    from cb_grows [OF c] obtain evs where "trace w' = trace wr @ evs" ..
    then have "trace w' = trace w2 @ Log LvError ''Failed to connect to MongoDB database'' [] # evs"
      by (simp add: wr_def)
    with ini c show ?thesis by simp
  next
    case Resolved
    have w5: "trace (load_state env w) = trace w2 @
        [Log LvInfo ''Connected to MongoDB database'' [],
         Log LvVerbose ''Loading the app's models from `%s`...'' [paths_models (config env)],
         LoadModels]"
      by (simp add: load_state_def w2_def)
    show ?thesis
    proof (cases "loadModels env")
      case (LoadThrows e)
      have ini: "initialize v env w = cb v env (Some e) (load_state env w)"
        by (simp add: initialize_def Resolved LoadThrows load_state_def)
      obtain r w' where c: "cb v env (Some e) (load_state env w) = (r, w')"
        by (cases "cb v env (Some e) (load_state env w)")
      from cb_grows [OF c] obtain evs where "trace w' = trace (load_state env w) @ evs" ..
      with ini c w5 show ?thesis by simp
    next
      case (LoadCallsBack dl calls)
      obtain r1 w6 where rc: "run_callbacks v env calls (load_state env w) = (r1, w6)"
        by (cases "run_callbacks v env calls (load_state env w)")
      from run_callbacks_grows [OF rc] w5 obtain evs6 where e6: "trace w6 = trace w2 @ evs6"
        by auto
      show ?thesis
      proof (cases "dl = Sync \<and> r1 \<noteq> Normal")
        case True
        then obtain e where r1: "r1 = Throw e" by (cases r1) auto
        have ini: "initialize v env w = cb v env (Some e) w6"
          using rc r1 True by (simp add: initialize_def Resolved LoadCallsBack load_state_def)
        obtain r w' where c: "cb v env (Some e) w6 = (r, w')"
          by (cases "cb v env (Some e) w6")
        from cb_grows [OF c] obtain evs where "trace w' = trace w6 @ evs" ..
        with ini c e6 show ?thesis by simp
      next
        case False
        have "initialize v env w = (r1, w6)"
          using rc False
          by (cases dl; cases r1) (simp_all add: initialize_def Resolved LoadCallsBack load_state_def)
        with e6 show ?thesis by auto
      qed
    qed
  qed
  with t2 show ?thesis by auto
qed

section \<open>What each stage leaves untouched\<close>

lemma compile_def_cases:
  assumes "compile_def v env identity d0 w = (r, d, w')"
  shows "w' = w \<or> (\<exists>x. w' = emit (NewSchema x) w) \<or> (\<exists>f x. w' = emit (ConstructSchema f x) w)"
    and "globalId d = globalId d0"
  using assms
  by (auto simp: compile_def_def Let_def split: if_splits jsval.splits sum.splits)

lemma only_trace_nil: "w = w\<lparr>trace := trace w @ []\<rparr>"
  by simp

lemma compile_def_frame:
  assumes "compile_def v env identity d0 w = (r, d, w')"
  shows "\<exists>evs. list_all is_instantiation evs \<and> w' = w\<lparr>trace := trace w @ evs\<rparr>"
proof -
  from compile_def_cases(1) [OF assms]
  consider "w' = w" | x where "w' = emit (NewSchema x) w"
    | f x where "w' = emit (ConstructSchema f x) w"
    by blast
  then show ?thesis
  proof cases
    case 1
    then have "list_all is_instantiation [] \<and> w' = w\<lparr>trace := trace w @ []\<rparr>" by simp
    then show ?thesis by blast
  next
    case 2
    then have "list_all is_instantiation [NewSchema x]
               \<and> w' = w\<lparr>trace := trace w @ [NewSchema x]\<rparr>"
      by (simp add: emit_def)
    then show ?thesis by blast
  next
    case 3
    then have "list_all is_instantiation [ConstructSchema f x]
               \<and> w' = w\<lparr>trace := trace w @ [ConstructSchema f x]\<rparr>"
      by (simp add: emit_def)
    then show ?thesis by blast
  qed
qed

lemma compile_schemas_frame:
  assumes "compile_schemas v env ks ms ss w = (r, ms', ss', w')"
  shows "\<exists>evs. list_all is_instantiation evs \<and> w' = w\<lparr>trace := trace w @ evs\<rparr>"
  using assms
proof (induction ks arbitrary: ms ss w)
  case Nil
  then have "list_all is_instantiation [] \<and> w' = w\<lparr>trace := trace w @ []\<rparr>" by simp
  then show ?case by blast
next
  case (Cons k ks)
  show ?case
  proof (cases "map_of ms k")
    case None
    with Cons.prems have "list_all is_instantiation [] \<and> w' = w\<lparr>trace := trace w @ []\<rparr>"
      by simp
    then show ?thesis by blast
  next
    case (Some d0)
    obtain r1 d w1 where cd: "compile_def v env k d0 w = (r1, d, w1)"
      by (metis prod_cases3)
    from compile_def_frame [OF cd]
    obtain evs1 where e1: "list_all is_instantiation evs1" "w1 = w\<lparr>trace := trace w @ evs1\<rparr>"
      by blast
    show ?thesis
    proof (cases r1)
      case (Inl e)
      with Cons.prems Some cd have "w' = w1" by simp
      with e1 show ?thesis by blast
    next
      case (Inr s)
      with Cons.prems Some cd
      have "compile_schemas v env ks (AList.update k d ms) (AList.update k s ss) w1
              = (r, ms', ss', w')"
        by simp
      from Cons.IH [OF this]
      obtain evs2 where e2: "list_all is_instantiation evs2" "w' = w1\<lparr>trace := trace w1 @ evs2\<rparr>"
        by blast
      have "list_all is_instantiation (evs1 @ evs2)" using e1(1) e2(1) by simp
      moreover have "w' = w\<lparr>trace := trace w @ evs1 @ evs2\<rparr>" using e1(2) e2(2) by simp
      ultimately show ?thesis by blast
    qed
  qed
qed

lemma callbacks_instantiation: "list_all is_instantiation evs \<Longrightarrow> callbacks evs = []"
  by (induction evs rule: callbacks.induct) simp_all

lemma callbacks_logs: "list_all is_log evs \<Longrightarrow> callbacks evs = []"
  by (induction evs rule: callbacks.induct) simp_all

lemma instantiation_logs: "list_all is_log evs \<Longrightarrow> filter is_instantiation evs = []"
proof (induction evs)
  case Nil
  then show ?case by simp
next
  case (Cons a evs)
  then show ?case by (cases a) simp_all
qed

lemma register_models_frame:
  assumes "register_models env ss ms w = (r, w')"
  shows "hasAlreadyTriggeredCallback w' = hasAlreadyTriggeredCallback w
         \<and> global_scope w' = global_scope w
         \<and> (\<exists>evs. list_all is_instantiation evs \<and> trace w' = trace w @ evs)"
  using assms
proof (induction ss arbitrary: w)
  case Nil
  then show ?case by simp
next
  case (Cons p ss)
  obtain k s where p: "p = (k, s)" by (cases p)
  show ?case
  proof (cases "map_of ms k")
    case None
    with Cons.prems p show ?thesis by simp
  next
    case (Some d)
    show ?thesis
    proof (cases "mk_model env (globalId d) s")
      case (Inl e)
      with Cons.prems p Some have "w' = emit (Model (globalId d)) w" by simp
      moreover have "list_all is_instantiation [Model (globalId d)]" by simp
      ultimately show ?thesis by (metis flag_emit global_emit trace_emit)
    next
      case (Inr m)
      define w1 where "w1 = (emit (Model (globalId d)) w)
                 \<lparr>models := AList.update k m (models w),
                   globalId_of := (globalId_of w)(m := Some (globalId d)),
                   identity_of := (identity_of w)(m := Some k)\<rparr>"
      from Cons.prems p Some Inr have "register_models env ss ms w1 = (r, w')"
        by (simp add: w1_def)
      from Cons.IH [OF this]
      obtain evs where e: "hasAlreadyTriggeredCallback w' = hasAlreadyTriggeredCallback w1"
        "global_scope w' = global_scope w1" "list_all is_instantiation evs"
        "trace w' = trace w1 @ evs"
        by blast
      have "list_all is_instantiation (Model (globalId d) # evs)" using e(3) by simp
      moreover have "trace w' = trace w @ Model (globalId d) # evs"
        using e(4) by (simp add: w1_def)
      ultimately show ?thesis using e(1,2) by (auto simp: w1_def)
    qed
  qed
qed

lemma instantiate_frame:
  assumes "instantiate v env modules w = (r, w')"
  shows "hasAlreadyTriggeredCallback w' = hasAlreadyTriggeredCallback w
         \<and> (\<exists>evs. list_all is_instantiation evs \<and> trace w' = trace w @ evs)"
proof -
  obtain r1 ms ss w1
    where cs: "compile_schemas v env (map fst modules) modules [] w = (r1, ms, ss, w1)"
    by (metis prod_cases4)
  from compile_schemas_frame [OF cs]
  obtain evs1 where e1: "list_all is_instantiation evs1" "w1 = w\<lparr>trace := trace w @ evs1\<rparr>"
    by blast
  show ?thesis
  proof (cases r1)
    case (Throw e)
    with assms cs have "w' = w1" by (simp add: instantiate_def)
    with e1 show ?thesis by auto
  next
    case Normal
    obtain r2 w2 where rm: "register_models env ss ms (w1\<lparr>models := []\<rparr>) = (r2, w2)"
      by (cases "register_models env ss ms (w1\<lparr>models := []\<rparr>)")
    from register_models_frame [OF rm]
    obtain evs2 where e2: "hasAlreadyTriggeredCallback w2 = hasAlreadyTriggeredCallback w1"
      "list_all is_instantiation evs2" "trace w2 = trace w1 @ evs2"
      by auto
    have "hasAlreadyTriggeredCallback w' = hasAlreadyTriggeredCallback w2 \<and> trace w' = trace w2"
      using assms cs Normal rm
      by (cases r2) (auto simp: instantiate_def expose_globals_frame split: if_splits sum.splits)
    moreover have "list_all is_instantiation (evs1 @ evs2)" using e1(1) e2(2) by simp
    moreover have "trace w2 = trace w @ evs1 @ evs2" using e1(2) e2(3) by simp
    ultimately show ?thesis using e1(2) e2(1) by auto
  qed
qed

lemma cb_first:
  assumes "\<not> hasAlreadyTriggeredCallback w" and "cb v env err w = (r, w')"
  shows "w' = emit (Callback err) (w\<lparr>hasAlreadyTriggeredCallback := True\<rparr>)"
    and "r = ext_cb env err"
  using assms by (auto simp: cb_def)

lemma cb_again:
  assumes "hasAlreadyTriggeredCallback w" and "cb v env err w = (r, w')"
  shows "\<exists>logs. list_all is_log logs \<and> w' = w\<lparr>trace := trace w @ logs\<rparr>"
proof (cases err)
  case None
  with assms have "w' = w\<lparr>trace := trace w @ [Log LvWarn (msg_called_again v) []]\<rparr>"
    by (simp add: cb_def emit_def)
  moreover have "list_all is_log [Log LvWarn (msg_called_again v) []]" by simp
  ultimately show ?thesis by blast
next
  case (Some e)
  with assms have "w' = w\<lparr>trace := trace w @
      [Log LvError (msg_called_again v) [], Log LvError (msg_crash v) []]\<rparr>"
    by (simp add: cb_def emit_def)
  moreover have "list_all is_log [Log LvError (msg_called_again v) [], Log LvError (msg_crash v) []]"
    by simp
  ultimately show ?thesis by blast
qed

text \<open>The first call of \<^verbatim>\<open>cb\<close> in a turn, followed by whatever the turn still does.\<close>

lemma first_then_again:
  assumes "\<not> hasAlreadyTriggeredCallback w"
      and "cb v env err w = (r1, w1)"
      and "\<And>e. r1 = Throw e \<Longrightarrow> cb v env (Some e) w1 = (r, w')"
      and "r1 = Normal \<Longrightarrow> w' = w1"
  shows "\<exists>logs. list_all is_log logs
           \<and> w' = w\<lparr>hasAlreadyTriggeredCallback := True, trace := trace w @ Callback err # logs\<rparr>"
proof (cases r1)
  case Normal
  with assms(4) cb_first(1) [OF assms(1,2)]
  have "list_all is_log []
        \<and> w' = w\<lparr>hasAlreadyTriggeredCallback := True, trace := trace w @ Callback err # []\<rparr>"
    by (simp add: emit_def)
  then show ?thesis by blast
next
  case (Throw e')
  note w1 = cb_first(1) [OF assms(1,2)]
  have "hasAlreadyTriggeredCallback w1" using w1 by simp
  from cb_again [OF this assms(3) [OF Throw]]
  obtain logs where l: "list_all is_log logs" "w' = w1\<lparr>trace := trace w1 @ logs\<rparr>" by blast
  have "w' = w\<lparr>hasAlreadyTriggeredCallback := True, trace := trace w @ Callback err # logs\<rparr>"
    using l(2) w1 by (simp add: emit_def)
  with l(1) show ?thesis by blast
qed

section \<open>One turn of the completion signal\<close>

lemma load_state_frame:
  "\<not> hasAlreadyTriggeredCallback (load_state env w)"
  "callbacks (trace (load_state env w)) = callbacks (trace w)"
  "filter is_instantiation (trace (load_state env w)) = filter is_instantiation (trace w)"
  "models (load_state env w) = models w"
  "global_scope (load_state env w) = global_scope w"
  by (simp_all add: load_state_def)

lemma modulesLoaded_error:
  assumes "\<not> hasAlreadyTriggeredCallback w" and "modulesLoaded v env (Some e) modules w = (r, w')"
  shows "w' = w\<lparr>hasAlreadyTriggeredCallback := True, trace := trace w @ [Callback (Some e)]\<rparr>"
  using assms by (simp add: modulesLoaded_def cb_def emit_def)

lemma modulesLoaded_throw:
  assumes "\<not> hasAlreadyTriggeredCallback w"
      and "instantiate v env modules w = (Throw e, w1)"
      and "modulesLoaded v env None modules w = (r, w')"
  shows "w' = w1\<lparr>hasAlreadyTriggeredCallback := True, trace := trace w1 @ [Callback (Some e)]\<rparr>"
proof -
  from instantiate_frame [OF assms(2)] assms(1) have "\<not> hasAlreadyTriggeredCallback w1" by simp
  with assms(2,3) show ?thesis by (simp add: modulesLoaded_def cb_def emit_def)
qed

lemma modulesLoaded_success:
  assumes "\<not> hasAlreadyTriggeredCallback w"
      and "instantiate v env modules w = (Normal, w1)"
      and "modulesLoaded v env None modules w = (r, w')"
  shows "\<exists>logs. list_all is_log logs
           \<and> w' = w1\<lparr>hasAlreadyTriggeredCallback := True, trace := trace w1 @ Callback None # logs\<rparr>"
proof -
  from instantiate_frame [OF assms(2)] assms(1) have f: "\<not> hasAlreadyTriggeredCallback w1" by simp
  obtain r2 w2 where c2: "cb v env None w1 = (r2, w2)"
    by (cases "cb v env None w1")
  show ?thesis
  proof (rule first_then_again [OF f c2])
    fix e assume "r2 = Throw e"
    with assms(2,3) c2 show "cb v env (Some e) w2 = (r, w')" by (simp add: modulesLoaded_def)
  next
    assume "r2 = Normal"
    with assms(2,3) c2 show "w' = w2" by (simp add: modulesLoaded_def)
  qed
qed

text \<open>
  A run whose loader calls back once ends in the state its \<^verbatim>\<open>modulesLoaded\<close> ends in,
  but for log lines that a throw of \<^verbatim>\<open>_cb\<close> may add in the outer \<^verbatim>\<open>catch\<close>.
\<close>

lemma initialize_single:
  assumes "connect env = Resolved" and "loadModels env = LoadCallsBack dl [(err, modules)]"
      and "modulesLoaded v env err modules (load_state env w) = (r1, w6)"
      and "hasAlreadyTriggeredCallback w6"
  shows "\<exists>logs. list_all is_log logs \<and> snd (initialize v env w) = w6\<lparr>trace := trace w6 @ logs\<rparr>"
proof -
  have rc: "run_callbacks v env [(err, modules)] (load_state env w) = (r1, w6)"
    using assms(3) by (cases r1) simp_all
  show ?thesis
  proof (cases "dl = Sync \<and> r1 \<noteq> Normal")
    case True
    then obtain e where r1: "r1 = Throw e" by (cases r1) auto
    have ini: "initialize v env w = cb v env (Some e) w6"
      using rc r1 True assms(1,2) by (simp add: initialize_def load_state_def)
    obtain r3 w3 where c3: "cb v env (Some e) w6 = (r3, w3)"
      by (cases "cb v env (Some e) w6")
    from cb_again [OF assms(4) c3] ini c3 show ?thesis by simp
  next
    case False
    have "initialize v env w = (r1, w6)"
      using rc False assms(1,2)
      by (cases dl; cases r1) (simp_all add: initialize_def load_state_def)
    then have "list_all is_log [] \<and> snd (initialize v env w) = w6\<lparr>trace := trace w6 @ []\<rparr>"
      by simp
    then show ?thesis by blast
  qed
qed

lemma initialize_rejected:
  assumes "connect env = Rejected err"
  shows "callbacks (trace (snd (initialize v env w)))
           = callbacks (trace w) @ [Some (new_Error (message err))]"
  using assms by (simp add: initialize_def cb_def Let_def)

lemma initialize_loader_throws:
  assumes "connect env = Resolved" and "loadModels env = LoadThrows e"
  shows "callbacks (trace (snd (initialize v env w))) = callbacks (trace w) @ [Some e]"
  using assms by (simp add: initialize_def cb_def Let_def)

lemma initialize_loader_error:
  assumes "connect env = Resolved" and "loadModels env = LoadCallsBack dl [(Some e, modules)]"
  shows "\<exists>logs. list_all is_log logs
           \<and> snd (initialize v env w) = (load_state env w)\<lparr>hasAlreadyTriggeredCallback := True,
                trace := trace (load_state env w) @ Callback (Some e) # logs\<rparr>"
proof -
  obtain r1 w6 where ml: "modulesLoaded v env (Some e) modules (load_state env w) = (r1, w6)"
    by (cases "modulesLoaded v env (Some e) modules (load_state env w)")
  note w6 = modulesLoaded_error [OF load_state_frame(1) ml]
  then have "hasAlreadyTriggeredCallback w6" by simp
  from initialize_single [OF assms ml this]
  obtain logs where l: "list_all is_log logs"
    "snd (initialize v env w) = w6\<lparr>trace := trace w6 @ logs\<rparr>"
    by blast
  have "snd (initialize v env w) = (load_state env w)\<lparr>hasAlreadyTriggeredCallback := True,
      trace := trace (load_state env w) @ Callback (Some e) # logs\<rparr>"
    using l(2) w6 by simp
  with l(1) show ?thesis by blast
qed

lemma initialize_instantiate_throws:
  assumes "connect env = Resolved" and "loadModels env = LoadCallsBack dl [(None, modules)]"
      and "instantiate v env modules (load_state env w) = (Throw e, w1)"
  shows "\<exists>logs. list_all is_log logs
           \<and> snd (initialize v env w) = w1\<lparr>hasAlreadyTriggeredCallback := True,
                trace := trace w1 @ Callback (Some e) # logs\<rparr>"
proof -
  obtain r1 w6 where ml: "modulesLoaded v env None modules (load_state env w) = (r1, w6)"
    by (cases "modulesLoaded v env None modules (load_state env w)")
  note w6 = modulesLoaded_throw [OF load_state_frame(1) assms(3) ml]
  then have "hasAlreadyTriggeredCallback w6" by simp
  from initialize_single [OF assms(1,2) ml this]
  obtain logs where l: "list_all is_log logs"
    "snd (initialize v env w) = w6\<lparr>trace := trace w6 @ logs\<rparr>"
    by blast
  have "snd (initialize v env w) = w1\<lparr>hasAlreadyTriggeredCallback := True,
      trace := trace w1 @ Callback (Some e) # logs\<rparr>"
    using l(2) w6 by simp
  with l(1) show ?thesis by blast
qed

lemma initialize_instantiate_returns:
  assumes "connect env = Resolved" and "loadModels env = LoadCallsBack dl [(None, modules)]"
      and "instantiate v env modules (load_state env w) = (Normal, w1)"
  shows "\<exists>logs. list_all is_log logs
           \<and> snd (initialize v env w) = w1\<lparr>hasAlreadyTriggeredCallback := True,
                trace := trace w1 @ Callback None # logs\<rparr>"
proof -
  obtain r1 w6 where ml: "modulesLoaded v env None modules (load_state env w) = (r1, w6)"
    by (cases "modulesLoaded v env None modules (load_state env w)")
  from modulesLoaded_success [OF load_state_frame(1) assms(3) ml]
  obtain logs1 where l1: "list_all is_log logs1"
    "w6 = w1\<lparr>hasAlreadyTriggeredCallback := True, trace := trace w1 @ Callback None # logs1\<rparr>"
    by blast
  then have "hasAlreadyTriggeredCallback w6" by simp
  from initialize_single [OF assms(1,2) ml this]
  obtain logs2 where l2: "list_all is_log logs2"
    "snd (initialize v env w) = w6\<lparr>trace := trace w6 @ logs2\<rparr>"
    by blast
  have "list_all is_log (logs1 @ logs2)" using l1(1) l2(1) by simp
  moreover have "snd (initialize v env w) = w1\<lparr>hasAlreadyTriggeredCallback := True,
      trace := trace w1 @ Callback None # logs1 @ logs2\<rparr>"
    using l1(2) l2(2) by simp
  ultimately show ?thesis by blast
qed

section \<open>Registry and global scope\<close>

lemma update_fresh: "k \<notin> fst ` set al \<Longrightarrow> AList.update k x al = al @ [(k, x)]"
  by (induction al) auto

lemma compile_schemas_result:
  assumes "compile_schemas v env ks ms ss w = (Normal, ms', ss', w')"
  shows "fst ` set ss' = fst ` set ss \<union> set ks
         \<and> (distinct (map fst ss) \<longrightarrow> distinct (map fst ss'))
         \<and> (\<forall>k. map_option globalId (map_of ms' k) = map_option globalId (map_of ms k))"
  using assms
proof (induction ks arbitrary: ms ss w)
  case Nil
  then show ?case by simp
next
  case (Cons a ks)
  from Cons.prems obtain d0 where d0: "map_of ms a = Some d0"
    by (cases "map_of ms a") auto
  obtain r1 d w1 where cd: "compile_def v env a d0 w = (r1, d, w1)"
    by (metis prod_cases3)
  from Cons.prems d0 cd obtain s where s: "r1 = Inr s"
    by (cases r1) auto
  have rec: "compile_schemas v env ks (AList.update a d ms) (AList.update a s ss) w1
               = (Normal, ms', ss', w')"
    using Cons.prems d0 cd s by simp
  have gid: "globalId d = globalId d0" using compile_def_cases(2) [OF cd] .
  note ih = Cons.IH [OF rec]
  have "fst ` set ss' = fst ` set ss \<union> set (a # ks)"
    using ih by (auto simp: dom_update)
  moreover have "distinct (map fst ss) \<longrightarrow> distinct (map fst ss')"
    using ih by (simp add: distinct_update)
  moreover have "\<forall>k. map_option globalId (map_of ms' k) = map_option globalId (map_of ms k)"
    using ih d0 gid by (simp add: update_conv')
  ultimately show ?case by blast
qed

lemma stamped_cong:
  assumes "\<And>k. map_option globalId (map_of ms' k) = map_option globalId (map_of ms k)"
      and "stamped ms' w"
  shows "stamped ms w"
  unfolding stamped_def
proof (clarify)
  fix k m assume "(k, m) \<in> set (models w)"
  with assms(2) obtain k1 d1 where h: "(k1, m) \<in> set (models w)" "map_of ms' k1 = Some d1"
    "globalId_of w m = Some (globalId d1)" "identity_of w m = Some k1"
    unfolding stamped_def by blast
  from assms(1) [of k1] h(2) obtain d where "map_of ms k1 = Some d" "globalId d = globalId d1"
    by (cases "map_of ms k1") auto
  with h show "\<exists>k1 d1. (k1, m) \<in> set (models w) \<and> map_of ms k1 = Some d1
      \<and> globalId_of w m = Some (globalId d1) \<and> identity_of w m = Some k1"
    by auto
qed

lemma register_models_result:
  assumes "register_models env ss ms w = (Normal, w')"
      and "distinct (map fst ss)"
      and "fst ` set ss \<inter> fst ` set (models w) = {}"
      and "stamped ms w"
  shows "map fst (models w') = map fst (models w) @ map fst ss
         \<and> stamped ms w'
         \<and> (\<forall>(k, s) \<in> set ss. \<exists>d. map_of ms k = Some d \<and> Model (globalId d) \<in> set (trace w'))"
  using assms
proof (induction ss arbitrary: w)
  case Nil
  then show ?case by simp
next
  case (Cons p ss)
  obtain k s where p: "p = (k, s)" by (cases p)
  from Cons.prems(1) p obtain d where d: "map_of ms k = Some d"
    by (cases "map_of ms k") auto
  from Cons.prems(1) p d obtain m where m: "mk_model env (globalId d) s = Inr m"
    by (cases "mk_model env (globalId d) s") auto
  define w1 where "w1 = (emit (Model (globalId d)) w)
                 \<lparr>models := AList.update k m (models w),
                   globalId_of := (globalId_of w)(m := Some (globalId d)),
                   identity_of := (identity_of w)(m := Some k)\<rparr>"
  have rec: "register_models env ss ms w1 = (Normal, w')"
    using Cons.prems(1) p d m by (simp add: w1_def)
  have fresh: "k \<notin> fst ` set (models w)"
    using Cons.prems(3) p by auto
  have m1: "models w1 = models w @ [(k, m)]"
    by (simp add: w1_def update_fresh [OF fresh])
  have disj: "fst ` set ss \<inter> fst ` set (models w1) = {}"
    using Cons.prems(2,3) p m1 by (auto simp: image_iff)
  have st1: "stamped ms w1"
    unfolding stamped_def
  proof (clarify)
    fix k0 m0 assume in1: "(k0, m0) \<in> set (models w1)"
    show "\<exists>k1 d1. (k1, m0) \<in> set (models w1) \<and> map_of ms k1 = Some d1
            \<and> globalId_of w1 m0 = Some (globalId d1) \<and> identity_of w1 m0 = Some k1"
    proof (cases "m0 = m")
      case True
      have "(k, m0) \<in> set (models w1)" "globalId_of w1 m0 = Some (globalId d)"
        "identity_of w1 m0 = Some k"
        using True m1 by (simp_all add: w1_def)
      with d show ?thesis by blast
    next
      case False
      with in1 m1 have "(k0, m0) \<in> set (models w)" by auto
      with Cons.prems(4) obtain k1 d1 where h: "(k1, m0) \<in> set (models w)"
        "map_of ms k1 = Some d1" "globalId_of w m0 = Some (globalId d1)"
        "identity_of w m0 = Some k1"
        unfolding stamped_def by blast
      have "(k1, m0) \<in> set (models w1)" "globalId_of w1 m0 = globalId_of w m0"
        "identity_of w1 m0 = identity_of w m0"
        using h(1) m1 False by (simp_all add: w1_def)
      with h show ?thesis by auto
    qed
  qed
  from Cons.IH [OF rec _ disj st1] Cons.prems(2)
  have ih: "map fst (models w') = map fst (models w1) @ map fst ss" "stamped ms w'"
    "\<forall>(k, s) \<in> set ss. \<exists>d. map_of ms k = Some d \<and> Model (globalId d) \<in> set (trace w')"
    by simp_all
  from register_models_grows [OF rec] obtain evs where "trace w' = trace w1 @ evs" ..
  then have "Model (globalId d) \<in> set (trace w')" by (simp add: w1_def)
  with ih d p m1 show ?case by auto
qed

lemma expose_globals_other:
  "g \<notin> (global_key w \<circ> snd) ` set hs \<Longrightarrow>
   map_of (global_scope (expose_globals hs w)) g = map_of (global_scope w) g"
proof (induction hs w rule: expose_globals.induct)
  case (1 w)
  then show ?case by simp
next
  case (2 identity m rest w)
  let ?w1 = "set_global (global_key w m) m w"
  have "g \<notin> (global_key ?w1 \<circ> snd) ` set rest" using "2.prems" by (auto simp: comp_def)
  from "2.IH" [OF this] "2.prems" show ?case
    by (simp add: set_global_def update_conv')
qed

lemma expose_globals_binds_some:
  assumes "(k, m) \<in> set hs" and "global_key w m \<notin> set read_only_globals"
  shows "\<exists>(k', m') \<in> set hs. global_key w m' = global_key w m
           \<and> map_of (global_scope (expose_globals hs w)) (global_key w m) = Some m'"
  using assms
proof (induction hs w arbitrary: k m rule: expose_globals.induct)
  case (1 w)
  then show ?case by simp
next
  case (2 identity m0 rest w)
  let ?w1 = "set_global (global_key w m0) m0 w"
  show ?case
  proof (cases "global_key w m \<in> (global_key w \<circ> snd) ` set rest")
    case True
    then obtain k2 m2 where in2: "(k2, m2) \<in> set rest" and g2: "global_key w m2 = global_key w m"
      by auto
    have "global_key ?w1 m2 \<notin> set read_only_globals" using g2 "2.prems"(2) by simp
    from "2.IH" [OF in2 this] g2 show ?thesis by auto
  next
    case False
    with "2.prems"(1) have eq: "m = m0" by force
    have "global_key w m \<notin> (global_key ?w1 \<circ> snd) ` set rest"
      using False by (simp add: comp_def)
    from expose_globals_other [OF this] eq "2.prems"(2)
    have "map_of (global_scope (expose_globals ((identity, m0) # rest) w)) (global_key w m)
            = Some m0"
      by (simp add: set_global_def update_conv')
    with eq show ?thesis by auto
  qed
qed

lemma instantiate_success:
  assumes "instantiate v env modules w = (Normal, w')"
  shows "fst ` set (models w') = fst ` set modules
         \<and> distinct (map fst (models w'))
         \<and> stamped modules w'
         \<and> (\<forall>k \<in> fst ` set modules. \<exists>d. map_of modules k = Some d
               \<and> Model (globalId d) \<in> set (trace w'))
         \<and> (exposure_enabled (config env) \<longrightarrow>
               (\<forall>(k, m) \<in> set (models w'). global_key w' m \<notin> set read_only_globals \<longrightarrow>
                  (\<exists>(k', m') \<in> set (models w'). global_key w' m' = global_key w' m
                     \<and> map_of (global_scope w') (global_key w' m) = Some m')))
         \<and> (\<not> exposure_enabled (config env) \<longrightarrow> global_scope w' = global_scope w)"
proof -
  obtain r1 ms ss w1
    where cs: "compile_schemas v env (map fst modules) modules [] w = (r1, ms, ss, w1)"
    by (metis prod_cases4)
  with assms have r1: "r1 = Normal" by (cases r1) (simp_all add: instantiate_def)
  note cr = compile_schemas_result [OF cs [unfolded r1]]
  have keys: "fst ` set ss = fst ` set modules" and dist: "distinct (map fst ss)"
    and gids: "\<And>k. map_option globalId (map_of ms k) = map_option globalId (map_of modules k)"
    using cr by simp_all
  from compile_schemas_frame [OF cs]
  have g1: "global_scope w1 = global_scope w" by auto
  obtain r2 w2 where rm: "register_models env ss ms (w1\<lparr>models := []\<rparr>) = (r2, w2)"
    by (cases "register_models env ss ms (w1\<lparr>models := []\<rparr>)")
  with assms cs r1 have r2: "r2 = Normal" by (cases r2) (simp_all add: instantiate_def)
  have "stamped ms (w1\<lparr>models := []\<rparr>)" by (simp add: stamped_def)
  from register_models_result [OF rm [unfolded r2] dist _ this]
  have m2: "map fst (models w2) = map fst ss" and st2: "stamped ms w2"
    and ev2: "\<forall>(k, s) \<in> set ss. \<exists>d. map_of ms k = Some d \<and> Model (globalId d) \<in> set (trace w2)"
    by simp_all
  have g2: "global_scope w2 = global_scope w"
    using register_models_frame [OF rm] g1 by simp
  have w': "w' = (if exposure_enabled (config env) then expose_globals (models w2) w2 else w2)"
    using assms cs r1 rm r2
    by (auto simp: instantiate_def exposure_enabled_def split: if_splits sum.splits)
  have same: "models w' = models w2" "trace w' = trace w2" "globalId_of w' = globalId_of w2"
    "identity_of w' = identity_of w2"
    by (simp_all add: w' expose_globals_frame)
  have key: "global_key w' = global_key w2"
    by (rule ext) (simp add: global_key_def same)
  have a: "fst ` set (models w') = fst ` set modules"
  proof -
    have "fst ` set (models w2) = set (map fst (models w2))" by simp
    also have "\<dots> = fst ` set ss" by (simp only: m2) simp
    finally show ?thesis using keys same by simp
  qed
  have b: "stamped modules w'"
  proof -
    have "stamped ms w'" using st2 same by (simp add: stamped_def)
    with gids show ?thesis by (rule stamped_cong)
  qed
  have c: "\<forall>k \<in> fst ` set modules. \<exists>d. map_of modules k = Some d
             \<and> Model (globalId d) \<in> set (trace w')"
  proof
    fix k assume "k \<in> fst ` set modules"
    with keys have "k \<in> fst ` set ss" by simp
    then obtain s where "(k, s) \<in> set ss" by auto
    with ev2 obtain d1 where d1: "map_of ms k = Some d1" "Model (globalId d1) \<in> set (trace w2)"
      by blast
    from gids [of k] d1(1) obtain d where "map_of modules k = Some d" "globalId d = globalId d1"
      by (cases "map_of modules k") auto
    with d1(2) same show "\<exists>d. map_of modules k = Some d \<and> Model (globalId d) \<in> set (trace w')"
      by auto
  qed
  have d: "\<forall>(k, m) \<in> set (models w'). global_key w' m \<notin> set read_only_globals \<longrightarrow>
             (\<exists>(k', m') \<in> set (models w'). global_key w' m' = global_key w' m
                \<and> map_of (global_scope w') (global_key w' m) = Some m')"
    if en: "exposure_enabled (config env)"
  proof (clarify)
    fix k m assume "(k, m) \<in> set (models w')" and "global_key w' m \<notin> set read_only_globals"
    then have "(k, m) \<in> set (models w2)" "global_key w2 m \<notin> set read_only_globals"
      using same key by simp_all
    from expose_globals_binds_some [OF this]
    have "\<exists>(k', m') \<in> set (models w2). global_key w2 m' = global_key w2 m
            \<and> map_of (global_scope (expose_globals (models w2) w2)) (global_key w2 m) = Some m'" .
    moreover have "global_scope w' = global_scope (expose_globals (models w2) w2)"
      using w' en by simp
    ultimately
    show "\<exists>(k', m') \<in> set (models w'). global_key w' m' = global_key w' m
            \<and> map_of (global_scope w') (global_key w' m) = Some m'"
      by (simp only: key same(1))
  qed
  have e: "global_scope w' = global_scope w" if "\<not> exposure_enabled (config env)"
    using that w' g2 by simp
  have a': "distinct (map fst (models w'))" using m2 dist same by simp
  from a a' b c d e show ?thesis by blast
qed

text \<open>With pairwise different \<^verbatim>\<open>globalId\<close>s, two registry entries with one key are one object.\<close>

lemma stamped_key_inj:
  assumes "stamped modules w" and "distinct (map fst (models w))"
      and "distinct (map (globalId \<circ> snd) modules)"
      and "(k, m) \<in> set (models w)" and "(k', m') \<in> set (models w)"
      and "global_key w m = global_key w m'"
  shows "m = m'"
proof -
  from assms(1,4) obtain k1 d1 where h1: "(k1, m) \<in> set (models w)" "map_of modules k1 = Some d1"
    "globalId_of w m = Some (globalId d1)"
    unfolding stamped_def by blast
  from assms(1,5) obtain k2 d2 where h2: "(k2, m') \<in> set (models w)" "map_of modules k2 = Some d2"
    "globalId_of w m' = Some (globalId d2)"
    unfolding stamped_def by blast
  have "globalId d1 = globalId d2" using assms(6) h1(3) h2(3) by (simp add: global_key_def)
  moreover have "(k1, d1) \<in> set modules" "(k2, d2) \<in> set modules"
    using h1(2) h2(2) by (auto dest: map_of_SomeD)
  moreover have "inj_on (globalId \<circ> snd) (set modules)"
    using assms(3) by (simp add: distinct_map)
  moreover have "(globalId \<circ> snd) (k1, d1) = (globalId \<circ> snd) (k2, d2)"
    using \<open>globalId d1 = globalId d2\<close> by simp
  ultimately have "(k1, d1) = (k2, d2)" by (meson inj_onD)
  then have "k1 = k2" by simp
  with h1(1) h2(1) assms(2) show ?thesis by (metis eq_key_imp_eq_value)
qed

section \<open>Configuration errors\<close>

lemma typeof_boolean: "typeof m = ''boolean'' \<longleftrightarrow> (\<exists>b. m = JBool b)"
  by (cases m) simp_all

text \<open>
  Claim C4, as the two files have it. A connection URI that is not a string and a
  \<^verbatim>\<open>connectionOpts\<close> that is an array make \<^verbatim>\<open>configure\<close> throw in both files; a
  \<^verbatim>\<open>globals.models\<close> that is not a boolean, on a \<^verbatim>\<open>globals\<close> whose \<^verbatim>\<open>typeof\<close> is
  \<^verbatim>\<open>'object'\<close>, makes it throw in \<^verbatim>\<open>index.js\<close>. The error is the one of the first test
  that fails: the globals error, else (the globals test absent or passed) the URI error,
  else the options error. The checks are made in \<^verbatim>\<open>configure\<close> only: \<^verbatim>\<open>initialize\<close> does
  not call it and begins with the connection attempt on the configuration as it is.
\<close>

theorem configure_rejects_malformed:
  assumes "typeof (mongoose_uri cfg) \<noteq> ''string''
           \<or> isArray (mongoose_connectionOpts cfg)
           \<or> (v = IndexJs \<and> typeof (globals cfg) = ''object''
               \<and> (\<exists>m. get_models (globals cfg) = Inr m \<and> typeof m \<noteq> ''boolean''))"
  shows "(\<exists>e. configure v cfg = Throw e)
         \<and> (v = IndexJs \<and> typeof (globals cfg) = ''object''
               \<and> (\<exists>m. get_models (globals cfg) = Inr m \<and> typeof m \<noteq> ''boolean'')
             \<longrightarrow> configure v cfg = Throw (new_Error msg_globals))
         \<and> ((v = Part000 \<or> typeof (globals cfg) \<noteq> ''object''
                \<or> (\<exists>b. get_models (globals cfg) = Inr (JBool b)))
               \<and> typeof (mongoose_uri cfg) \<noteq> ''string''
             \<longrightarrow> configure v cfg = Throw (new_Error (msg_uri v)))
         \<and> ((v = Part000 \<or> typeof (globals cfg) \<noteq> ''object''
                \<or> (\<exists>b. get_models (globals cfg) = Inr (JBool b)))
               \<and> typeof (mongoose_uri cfg) = ''string''
               \<and> isArray (mongoose_connectionOpts cfg)
             \<longrightarrow> configure v cfg = Throw (new_Error (msg_connectionOpts v)))
         \<and> (\<forall>env w. config env = cfg \<longrightarrow>
               (\<exists>evs. trace (snd (initialize v env w))
                  = trace w @ Connect (mongoose_uri cfg) (mongoose_connectionOpts cfg) # evs))"
proof -
  have 1: "\<exists>e. configure v cfg = Throw e"
    using assms by (cases v) (auto split: sum.splits bool.splits)
  have 2: "configure v cfg = Throw (new_Error msg_globals)"
    if "v = IndexJs \<and> typeof (globals cfg) = ''object''
        \<and> (\<exists>m. get_models (globals cfg) = Inr m \<and> typeof m \<noteq> ''boolean'')"
    using that by auto
  have 3: "configure v cfg = Throw (new_Error (msg_uri v))"
    if "(v = Part000 \<or> typeof (globals cfg) \<noteq> ''object''
          \<or> (\<exists>b. get_models (globals cfg) = Inr (JBool b)))
        \<and> typeof (mongoose_uri cfg) \<noteq> ''string''"
    using that by (cases v) auto
  have 4: "configure v cfg = Throw (new_Error (msg_connectionOpts v))"
    if "(v = Part000 \<or> typeof (globals cfg) \<noteq> ''object''
          \<or> (\<exists>b. get_models (globals cfg) = Inr (JBool b)))
        \<and> typeof (mongoose_uri cfg) = ''string''
        \<and> isArray (mongoose_connectionOpts cfg)"
    using that by (cases v) auto
  have 5: "\<exists>evs. trace (snd (initialize v env w))
             = trace w @ Connect (mongoose_uri cfg) (mongoose_connectionOpts cfg) # evs"
    if "config env = cfg" for env :: "('a, 'b) env" and w
    using initialize_connects_first [of v env w] that by simp
  from 1 2 3 4 5 show ?thesis by blast
qed

theorem configure_rejects_malformed_witness:
  "typeof (mongoose_uri cfg1) \<noteq> ''string''
   \<and> get_models (globals cfg1) = Inr (JBool True)
   \<and> configure IndexJs cfg1 = Throw (new_Error (msg_uri IndexJs))
   \<and> configure Part000 cfg1 = Throw (new_Error (msg_uri Part000))
   \<and> isArray (mongoose_connectionOpts (cfg0\<lparr>mongoose_connectionOpts := JArr []\<rparr>))
   \<and> configure IndexJs (cfg0\<lparr>mongoose_connectionOpts := JArr []\<rparr>)
       = Throw (new_Error (msg_connectionOpts IndexJs))
   \<and> configure IndexJs (cfg0\<lparr>globals := JObj [(''models'', JStr ''yes'')]\<rparr>)
       = Throw (new_Error msg_globals)"
  using configure_rejects_malformed [of cfg1 IndexJs]
  by (simp add: cfg0_def cfg1_def)

text \<open>
  Where the code differs from the claim. The second file does not look at \<^verbatim>\<open>globals\<close>:
  with \<^verbatim>\<open>globals = {models: 'yes'}\<close> and the rest well-formed its \<^verbatim>\<open>configure\<close> returns.
  In \<^verbatim>\<open>index.js\<close>, \<^verbatim>\<open>globals = null\<close> makes the first test itself throw a \<^verbatim>\<open>TypeError\<close>,
  whatever the URI is. And \<^verbatim>\<open>initialize\<close>, given a configuration that \<^verbatim>\<open>configure\<close>
  rejects, attempts the connection with it.
\<close>

theorem configure_not_as_claimed:
  "typeof (globals (cfg0\<lparr>globals := JObj [(''models'', JStr ''yes'')]\<rparr>)) = ''object''
   \<and> get_models (globals (cfg0\<lparr>globals := JObj [(''models'', JStr ''yes'')]\<rparr>)) = Inr (JStr ''yes'')
   \<and> typeof (JStr ''yes'') \<noteq> ''boolean''
   \<and> configure Part000 (cfg0\<lparr>globals := JObj [(''models'', JStr ''yes'')]\<rparr>) = Normal
   \<and> typeof (mongoose_uri (cfg1\<lparr>globals := JNull\<rparr>)) \<noteq> ''string''
   \<and> configure IndexJs (cfg1\<lparr>globals := JNull\<rparr>) = Throw (type_error ''null'' ''models'')
   \<and> type_error ''null'' ''models'' \<notin> set (config_errors IndexJs)
   \<and> configure IndexJs cfg1 = Throw (new_Error (msg_uri IndexJs))
   \<and> trace (snd (initialize IndexJs
        (env0\<lparr>config := cfg1, connect := Rejected (new_Error ''Invalid connection string'')\<rparr>)
        world0))
     = [Connect (JNum 27017) (JObj []),
        Log LvError ''Failed to connect to MongoDB database'' [],
        Callback (Some (new_Error ''Invalid connection string''))]"
  by (simp add: run_defs new_Error_def type_error_def)

section \<open>Exactly one completion signal\<close>

text \<open>
  Claim C1. On a single path (the loader throws without calling back, or calls back
  exactly once), whatever the collaborators and \<^verbatim>\<open>_cb\<close> itself do, one run of
  \<^verbatim>\<open>initialize\<close> invokes \<^verbatim>\<open>_cb\<close> exactly once, and with the outcome of the path taken:
  the wrapped connection error, the error the loader threw or passed, the error thrown
  while the models were compiled, registered and exposed, or no error. In the last case
  the invocation follows every event of that work, one \<^verbatim>\<open>mongoose.model\<close> call per
  identity among them, and only log lines follow it; the registry is the one that work
  built.
\<close>

theorem callback_exactly_once:
  assumes "single_path (loadModels env)"
  shows "(\<exists>x. callbacks (trace (snd (initialize v env w))) = callbacks (trace w) @ [x])
         \<and> (\<forall>err. connect env = Rejected err \<longrightarrow>
               callbacks (trace (snd (initialize v env w)))
                 = callbacks (trace w) @ [Some (new_Error (message err))])
         \<and> (\<forall>e. connect env = Resolved \<and> loadModels env = LoadThrows e \<longrightarrow>
               callbacks (trace (snd (initialize v env w))) = callbacks (trace w) @ [Some e])
         \<and> (\<forall>dl e modules. connect env = Resolved
               \<and> loadModels env = LoadCallsBack dl [(Some e, modules)] \<longrightarrow>
               callbacks (trace (snd (initialize v env w))) = callbacks (trace w) @ [Some e])
         \<and> (\<forall>dl modules e w1. connect env = Resolved
               \<and> loadModels env = LoadCallsBack dl [(None, modules)]
               \<and> instantiate v env modules (load_state env w) = (Throw e, w1) \<longrightarrow>
               callbacks (trace (snd (initialize v env w))) = callbacks (trace w) @ [Some e])
         \<and> (\<forall>dl modules w1. connect env = Resolved
               \<and> loadModels env = LoadCallsBack dl [(None, modules)]
               \<and> instantiate v env modules (load_state env w) = (Normal, w1) \<longrightarrow>
               callbacks (trace (snd (initialize v env w))) = callbacks (trace w) @ [None]
               \<and> (\<exists>logs. list_all is_log logs
                     \<and> trace (snd (initialize v env w)) = trace w1 @ Callback None # logs)
               \<and> models (snd (initialize v env w)) = models w1
               \<and> fst ` set (models w1) = fst ` set modules
               \<and> (\<forall>k \<in> fst ` set modules. \<exists>d. map_of modules k = Some d
                     \<and> Model (globalId d) \<in> set (trace w1)))"
proof -
  let ?cbs = "callbacks (trace (snd (initialize v env w)))"
  have rej: "?cbs = callbacks (trace w) @ [Some (new_Error (message err))]"
    if "connect env = Rejected err" for err
    using initialize_rejected [OF that] .
  have thr: "?cbs = callbacks (trace w) @ [Some e]"
    if "connect env = Resolved \<and> loadModels env = LoadThrows e" for e
    using initialize_loader_throws that by blast
  have lerr: "?cbs = callbacks (trace w) @ [Some e]"
    if "connect env = Resolved \<and> loadModels env = LoadCallsBack dl [(Some e, modules)]"
    for dl e modules
  proof -
    from initialize_loader_error [of env dl e modules v w] that
    obtain logs where "list_all is_log logs"
      "snd (initialize v env w) = (load_state env w)\<lparr>hasAlreadyTriggeredCallback := True,
         trace := trace (load_state env w) @ Callback (Some e) # logs\<rparr>"
      by blast
    then show ?thesis by (simp add: load_state_frame callbacks_logs)
  qed
  have ithr: "?cbs = callbacks (trace w) @ [Some e]"
    if "connect env = Resolved \<and> loadModels env = LoadCallsBack dl [(None, modules)]
        \<and> instantiate v env modules (load_state env w) = (Throw e, w1)"
    for dl modules e w1
  proof -
    from that initialize_instantiate_throws [of env dl modules v w e w1]
    obtain logs where l: "list_all is_log logs"
      "snd (initialize v env w) = w1\<lparr>hasAlreadyTriggeredCallback := True,
         trace := trace w1 @ Callback (Some e) # logs\<rparr>"
      by blast
    from that instantiate_frame [of v env modules "load_state env w" "Throw e" w1]
    obtain evs where "list_all is_instantiation evs" "trace w1 = trace (load_state env w) @ evs"
      by blast
    with l show ?thesis
      by (simp add: load_state_frame callbacks_logs callbacks_instantiation)
  qed
  have iret: "?cbs = callbacks (trace w) @ [None]
      \<and> (\<exists>logs. list_all is_log logs
            \<and> trace (snd (initialize v env w)) = trace w1 @ Callback None # logs)
      \<and> models (snd (initialize v env w)) = models w1
      \<and> fst ` set (models w1) = fst ` set modules
      \<and> (\<forall>k \<in> fst ` set modules. \<exists>d. map_of modules k = Some d
            \<and> Model (globalId d) \<in> set (trace w1))"
    if "connect env = Resolved \<and> loadModels env = LoadCallsBack dl [(None, modules)]
        \<and> instantiate v env modules (load_state env w) = (Normal, w1)"
    for dl modules w1
  proof -
    from that initialize_instantiate_returns [of env dl modules v w w1]
    obtain logs where l: "list_all is_log logs"
      "snd (initialize v env w) = w1\<lparr>hasAlreadyTriggeredCallback := True,
         trace := trace w1 @ Callback None # logs\<rparr>"
      by blast
    from that instantiate_frame [of v env modules "load_state env w" Normal w1]
    obtain evs where "list_all is_instantiation evs" "trace w1 = trace (load_state env w) @ evs"
      by blast
    with l have "?cbs = callbacks (trace w) @ [None]"
      by (simp add: load_state_frame callbacks_logs callbacks_instantiation)
    moreover from l have "\<exists>logs. list_all is_log logs
        \<and> trace (snd (initialize v env w)) = trace w1 @ Callback None # logs"
      by auto
    moreover from l have "models (snd (initialize v env w)) = models w1" by simp
    moreover from that instantiate_success [of v env modules "load_state env w" w1]
    have "fst ` set (models w1) = fst ` set modules"
      "\<forall>k \<in> fst ` set modules. \<exists>d. map_of modules k = Some d
          \<and> Model (globalId d) \<in> set (trace w1)"
      by blast+
    ultimately show ?thesis by blast
  qed
  have "\<exists>x. ?cbs = callbacks (trace w) @ [x]"
  proof (cases "connect env")
    case (Rejected err)
    with rej show ?thesis by blast
  next
    case Resolved
    show ?thesis
    proof (cases "loadModels env")
      case (LoadThrows e)
      with thr Resolved show ?thesis by blast
    next
      case (LoadCallsBack dl calls)
      with assms obtain err modules where calls: "calls = [(err, modules)]"
        by (cases calls) auto
      show ?thesis
      proof (cases err)
        case (Some e)
        with lerr Resolved LoadCallsBack calls show ?thesis by blast
      next
        case None
        obtain r1 w1 where ins: "instantiate v env modules (load_state env w) = (r1, w1)"
          by (cases "instantiate v env modules (load_state env w)")
        show ?thesis
        proof (cases r1)
          case (Throw e)
          with ithr Resolved LoadCallsBack calls None ins show ?thesis by blast
        next
          case Normal
          with iret Resolved LoadCallsBack calls None ins show ?thesis by blast
        qed
      qed
    qed
  qed
  with rej thr lerr ithr iret show ?thesis by blast
qed

theorem callback_exactly_once_witness:
  "single_path (loadModels env0)
   \<and> connect env0 = Resolved
   \<and> loadModels env0 = LoadCallsBack Async [(None, modules0)]
   \<and> trace (snd (initialize IndexJs env0 world0))
       = [Connect (JStr ''mongodb://localhost:27017/app'') (JObj []),
          Log LvInfo ''Connected to MongoDB database'' [],
          Log LvVerbose ''Loading the app's models from `%s`...'' [JStr ''api/models''],
          LoadModels,
          NewSchema (JObj []),
          ConstructSchema 1 (JObj []),
          Model ''Alpha'',
          Model ''Beta'',
          Callback None]
   \<and> callbacks (trace (snd (initialize IndexJs env0 world0))) = callbacks (trace world0) @ [None]
   \<and> callbacks (trace (snd (initialize IndexJs (env0\<lparr>connect := Rejected (new_Error ''refused'')\<rparr>)
         world0))) = [Some (new_Error ''refused'')]
   \<and> callbacks (trace (snd (initialize IndexJs
         (env0\<lparr>loadModels := LoadCallsBack Async [(None, modules1)]\<rparr>) world0)))
       = [Some (rewrap IndexJs ''alpha'' (new_Error ''boom''))]"
  using callback_exactly_once [of env0 IndexJs world0]
  by (simp add: run_defs new_Error_def rewrap_def)

section \<open>The guard of the completion callback\<close>

text \<open>
  Claim C2. Once the flag is set, \<^verbatim>\<open>cb\<close> called without an error returns normally, its
  only effect is one warning in the log, and \<^verbatim>\<open>_cb\<close> is not invoked.
\<close>

theorem repeated_success_swallowed:
  assumes "hasAlreadyTriggeredCallback w"
  shows "cb v env None w = (Normal, emit (Log LvWarn (msg_called_again v) []) w)
         \<and> callbacks (trace (snd (cb v env None w))) = callbacks (trace w)"
  using assms by (simp add: cb_def)

theorem repeated_success_swallowed_witness:
  "hasAlreadyTriggeredCallback (world0\<lparr>hasAlreadyTriggeredCallback := True\<rparr>)
   \<and> cb IndexJs env0 None (world0\<lparr>hasAlreadyTriggeredCallback := True\<rparr>)
       = (Normal, world0\<lparr>hasAlreadyTriggeredCallback := True,
                         trace := [Log LvWarn (msg_called_again IndexJs) []]\<rparr>)"
  using repeated_success_swallowed [of "world0\<lparr>hasAlreadyTriggeredCallback := True\<rparr>" IndexJs env0]
  by (simp add: world0_def emit_def)

text \<open>
  Claim C3. Once the flag is set, \<^verbatim>\<open>cb\<close> called with an error throws that very error,
  after two error lines in the log, and \<^verbatim>\<open>_cb\<close> is not invoked.
\<close>

theorem repeated_error_thrown:
  assumes "hasAlreadyTriggeredCallback w"
  shows "fst (cb v env (Some e) w) = Throw e
         \<and> callbacks (trace (snd (cb v env (Some e) w))) = callbacks (trace w)
         \<and> trace (snd (cb v env (Some e) w))
             = trace w @ [Log LvError (msg_called_again v) [], Log LvError (msg_crash v) []]"
  using assms by (simp add: cb_def)

theorem repeated_error_thrown_witness:
  "hasAlreadyTriggeredCallback (world0\<lparr>hasAlreadyTriggeredCallback := True\<rparr>)
   \<and> fst (cb Part000 env0 (Some (new_Error ''late'')) (world0\<lparr>hasAlreadyTriggeredCallback := True\<rparr>))
       = Throw (new_Error ''late'')
   \<and> callbacks (trace (snd (cb Part000 env0 (Some (new_Error ''late''))
                  (world0\<lparr>hasAlreadyTriggeredCallback := True\<rparr>)))) = []"
  using repeated_error_thrown [of "world0\<lparr>hasAlreadyTriggeredCallback := True\<rparr>" Part000 env0 "new_Error ''late''"]
  by (simp add: world0_def)

section \<open>Missing and null schemas\<close>



text \<open>
  Claim C10. A \<^verbatim>\<open>schema\<close> that is \<^verbatim>\<open>null\<close> passes the shape check: without an
  interceptor it goes to the schema constructor, with one it goes to the interceptor,
  and the validation error is not produced.
\<close>

theorem null_schema_not_rejected:
  "compile_def v env identity (d\<lparr>schema := JNull, constructSchema := JUndefined\<rparr>) w
     = (Schema env JNull, d\<lparr>schema := JNull, constructSchema := JUndefined\<rparr>,
        emit (NewSchema JNull) w)
   \<and> compile_def v env identity (d\<lparr>schema := JNull, constructSchema := JFun f\<rparr>) w
     = (map_sum (rewrap v identity) id (call env f JNull w),
        d\<lparr>schema := JNull, constructSchema := JFun f\<rparr>, emit (ConstructSchema f JNull) w)"
  by (simp add: compile_def_def Let_def split: sum.splits)

theorem null_schema_not_rejected_witness:
  "compile_def Part000 env0 ''alpha''
      \<lparr>schema = JNull, constructSchema = JUndefined, globalId = ''Alpha''\<rparr> world0
   = (Inr JNull, \<lparr>schema = JNull, constructSchema = JUndefined, globalId = ''Alpha''\<rparr>,
      world0\<lparr>trace := [NewSchema JNull]\<rparr>)"
  using null_schema_not_rejected [of Part000 env0 "''alpha''"
      "\<lparr>schema = JNull, constructSchema = JUndefined, globalId = ''Alpha''\<rparr>" world0]
  by (simp add: run_defs)

section \<open>Errors of the module loader\<close>

text \<open>
  Claim C8. When the connection resolved and the loader's one callback carries an error,
  \<^verbatim>\<open>_cb\<close> is invoked once, with that very error; the run adds no schema construction,
  no interceptor call and no \<^verbatim>\<open>mongoose.model\<close> call to the trace, and leaves the
  registry and the global scope as they were.
\<close>

theorem loader_error_forwarded:
  assumes "connect env = Resolved"
      and "loadModels env = LoadCallsBack dl [(Some e, modules)]"
  shows "callbacks (trace (snd (initialize v env w))) = callbacks (trace w) @ [Some e]
         \<and> filter is_instantiation (trace (snd (initialize v env w)))
             = filter is_instantiation (trace w)
         \<and> models (snd (initialize v env w)) = models w
         \<and> global_scope (snd (initialize v env w)) = global_scope w"
  using assms
  by (cases dl; cases "ext_cb env (Some e)")
     (simp_all add: initialize_def modulesLoaded_def cb_def Let_def)

theorem loader_error_forwarded_witness:
  "connect (env0\<lparr>loadModels := LoadCallsBack Sync [(Some (new_Error ''ENOENT''), modules0)]\<rparr>)
     = Resolved
   \<and> trace (snd (initialize IndexJs
        (env0\<lparr>loadModels := LoadCallsBack Sync [(Some (new_Error ''ENOENT''), modules0)]\<rparr>) world0))
     = [Connect (JStr ''mongodb://localhost:27017/app'') (JObj []),
        Log LvInfo ''Connected to MongoDB database'' [],
        Log LvVerbose ''Loading the app's models from `%s`...'' [JStr ''api/models''],
        LoadModels,
        Callback (Some (new_Error ''ENOENT''))]
   \<and> models (snd (initialize IndexJs
        (env0\<lparr>loadModels := LoadCallsBack Sync [(Some (new_Error ''ENOENT''), modules0)]\<rparr>) world0))
     = []"
  using loader_error_forwarded [of
      "env0\<lparr>loadModels := LoadCallsBack Sync [(Some (new_Error ''ENOENT''), modules0)]\<rparr>"
      Sync "new_Error ''ENOENT''" modules0 IndexJs world0]
  by (simp add: run_defs)

section \<open>Errors of schema compilation\<close>

lemma compile_schemas_append:
  "compile_schemas v env (ks1 @ ks2) ms ss w =
     (case compile_schemas v env ks1 ms ss w of
        (Normal, ms1, ss1, w1) \<Rightarrow> compile_schemas v env ks2 ms1 ss1 w1
      | (Throw e, ms1, ss1, w1) \<Rightarrow> (Throw e, ms1, ss1, w1))"
  by (induction ks1 arbitrary: ms ss w) (auto split: option.splits sum.splits prod.splits)

lemma modulesLoaded_surfaces:
  assumes "\<not> hasAlreadyTriggeredCallback w" and "instantiate v env modules w = (Throw e, w1)"
  shows "callbacks (trace (snd (modulesLoaded v env None modules w)))
           = callbacks (trace w) @ [Some e]
         \<and> models (snd (modulesLoaded v env None modules w)) = models w1
         \<and> global_scope (snd (modulesLoaded v env None modules w)) = global_scope w1"
proof -
  obtain r w' where ml: "modulesLoaded v env None modules w = (r, w')"
    by (cases "modulesLoaded v env None modules w")
  from instantiate_frame [OF assms(2)]
  obtain evs where "list_all is_instantiation evs" "trace w1 = trace w @ evs" by blast
  with modulesLoaded_throw [OF assms ml] ml show ?thesis
    by (simp add: callbacks_instantiation)
qed








text \<open>
  A schema that is neither undefined nor accepted by the shape check (its \<^verbatim>\<open>typeof\<close> is
  not \<^verbatim>\<open>'object'\<close>, or it is an array) ends the run with the error that names the
  identity, and the registry and the global scope stay as they were.
\<close>

lemma invalid_schema_rejected:
  assumes "\<not> hasAlreadyTriggeredCallback w"
      and "map fst modules = ks1 @ identity # ks2"
      and "compile_schemas v env ks1 modules [] w = (Normal, ms1, ss1, w1)"
      and "map_of ms1 identity = Some d"
      and "typeof (schema d) \<noteq> ''undefined''"
      and "typeof (schema d) \<noteq> ''object'' \<or> isArray (schema d)"
  shows "callbacks (trace (snd (modulesLoaded v env None modules w)))
           = callbacks (trace w) @ [Some (new_Error (msg_invalid_schema v identity))]
         \<and> models (snd (modulesLoaded v env None modules w)) = models w
         \<and> global_scope (snd (modulesLoaded v env None modules w)) = global_scope w"
proof -
  have cd: "compile_def v env identity d w1
              = (Inl (new_Error (msg_invalid_schema v identity)), d, w1)"
    using assms(5,6) by (auto simp: compile_def_def)
  have "compile_schemas v env (map fst modules) modules [] w
          = (Throw (new_Error (msg_invalid_schema v identity)),
             AList.update identity d ms1, ss1, w1)"
    using assms(2,3,4) cd by (simp add: compile_schemas_append)
  then have "instantiate v env modules w
               = (Throw (new_Error (msg_invalid_schema v identity)), w1)"
    by (simp add: instantiate_def)
  from modulesLoaded_surfaces [OF assms(1) this] compile_schemas_frame [OF assms(3)]
  show ?thesis by auto
qed

text \<open>
  Claim C6 at \<^verbatim>\<open>schema: null\<close>, which is present and is not a dictionary. The check
  \<^verbatim>\<open>typeof def.schema !== 'object' || Array.isArray(def.schema)\<close> lets it through: with a
  schema constructor that accepts it the run succeeds, \<^verbatim>\<open>_cb\<close> is invoked without an
  error and the model is registered, in both files.
\<close>

theorem null_schema_is_registered:
  "callbacks (trace (snd (initialize IndexJs
       (env0\<lparr>loadModels := LoadCallsBack Async [(None, modules2)]\<rparr>) world0))) = [None]
   \<and> models (snd (initialize IndexJs
       (env0\<lparr>loadModels := LoadCallsBack Async [(None, modules2)]\<rparr>) world0))
     = [(''user'', (''User'', JNull))]
   \<and> identity_of (snd (initialize IndexJs
       (env0\<lparr>loadModels := LoadCallsBack Async [(None, modules2)]\<rparr>) world0)) (''User'', JNull)
     = Some ''user''
   \<and> callbacks (trace (snd (initialize Part000
       (env0\<lparr>loadModels := LoadCallsBack Async [(None, modules2)]\<rparr>) world0))) = [None]
   \<and> models (snd (initialize Part000
       (env0\<lparr>loadModels := LoadCallsBack Async [(None, modules2)]\<rparr>) world0))
     = [(''user'', (''User'', JNull))]"
  by (simp add: run_defs)

section \<open>The registry and the global scope after a successful run\<close>

text \<open>
  Claim C9, as the code has it. Take a run whose loader calls back once and which
  succeeds, that is, \<^verbatim>\<open>_cb\<close> is invoked without an error. Then the registry has an entry
  for exactly the model identities, and every registered object carries the \<^verbatim>\<open>globalId\<close>
  and \<^verbatim>\<open>identity\<close> of a definition it is registered under. With exposure enabled, the
  \<^verbatim>\<open>globalId\<close> of every registered object, unless it is the name of a read-only global,
  is bound in global scope to a registered object with that \<^verbatim>\<open>globalId\<close>, and to the
  object itself when the definitions' \<^verbatim>\<open>globalId\<close>s are pairwise different. With exposure
  disabled, or \<^verbatim>\<open>globals\<close> absent, the global scope is what it was before the run.
\<close>

theorem registry_and_globals:
  assumes "loadModels env = LoadCallsBack dl [(err, modules)]"
      and "callbacks (trace (snd (initialize v env w))) = callbacks (trace w) @ [None]"
  shows "fst ` set (models (snd (initialize v env w))) = fst ` set modules
         \<and> stamped modules (snd (initialize v env w))
         \<and> (exposure_enabled (config env) \<longrightarrow>
               (\<forall>(k, m) \<in> set (models (snd (initialize v env w))).
                  global_key (snd (initialize v env w)) m \<notin> set read_only_globals \<longrightarrow>
                  (\<exists>(k', m') \<in> set (models (snd (initialize v env w))).
                     global_key (snd (initialize v env w)) m'
                       = global_key (snd (initialize v env w)) m
                     \<and> map_of (global_scope (snd (initialize v env w)))
                          (global_key (snd (initialize v env w)) m) = Some m')))
         \<and> (exposure_enabled (config env) \<and> distinct (map (globalId \<circ> snd) modules) \<longrightarrow>
               (\<forall>(k, m) \<in> set (models (snd (initialize v env w))).
                  global_key (snd (initialize v env w)) m \<notin> set read_only_globals \<longrightarrow>
                  map_of (global_scope (snd (initialize v env w)))
                    (global_key (snd (initialize v env w)) m) = Some m))
         \<and> (\<not> exposure_enabled (config env) \<longrightarrow>
               global_scope (snd (initialize v env w)) = global_scope w)"
proof -
  let ?w' = "snd (initialize v env w)"
  have res: "connect env = Resolved"
  proof (cases "connect env")
    case (Rejected e)
    from initialize_rejected [OF this, of v w] assms(2) show ?thesis by simp
  qed
  have err: "err = None"
  proof (cases err)
    case (Some e)
    from initialize_loader_error [OF res assms(1) [unfolded Some], of v w]
    obtain logs where "list_all is_log logs"
      "?w' = (load_state env w)\<lparr>hasAlreadyTriggeredCallback := True,
         trace := trace (load_state env w) @ Callback (Some e) # logs\<rparr>"
      by blast
    then have "callbacks (trace ?w') = callbacks (trace w) @ [Some e]"
      by (simp add: load_state_frame callbacks_logs)
    with assms(2) show ?thesis by simp
  qed
  obtain r1 w1 where ins: "instantiate v env modules (load_state env w) = (r1, w1)"
    by (cases "instantiate v env modules (load_state env w)")
  from instantiate_frame [OF ins]
  obtain evs where evs: "list_all is_instantiation evs" "trace w1 = trace (load_state env w) @ evs"
    by blast
  have r1: "r1 = Normal"
  proof (cases r1)
    case (Throw e)
    from initialize_instantiate_throws [OF res assms(1) [unfolded err] ins [unfolded Throw]]
    obtain logs where "list_all is_log logs"
      "?w' = w1\<lparr>hasAlreadyTriggeredCallback := True,
         trace := trace w1 @ Callback (Some e) # logs\<rparr>"
      by blast
    with evs have "callbacks (trace ?w') = callbacks (trace w) @ [Some e]"
      by (simp add: load_state_frame callbacks_logs callbacks_instantiation)
    with assms(2) show ?thesis by simp
  qed
  from initialize_instantiate_returns [OF res assms(1) [unfolded err] ins [unfolded r1]]
  obtain logs where "?w' = w1\<lparr>hasAlreadyTriggeredCallback := True,
      trace := trace w1 @ Callback None # logs\<rparr>"
    by blast
  then have same: "models ?w' = models w1" "global_scope ?w' = global_scope w1"
    "globalId_of ?w' = globalId_of w1" "identity_of ?w' = identity_of w1"
    by simp_all
  have key: "global_key ?w' = global_key w1"
    by (rule ext) (simp add: global_key_def same)
  have st: "stamped modules ?w' = stamped modules w1"
    by (simp add: stamped_def same)
  note s = instantiate_success [OF ins [unfolded r1]]
  have a: "fst ` set (models ?w') = fst ` set modules" using s same by simp
  have b: "stamped modules ?w'" using s st by simp
  have c: "\<forall>(k, m) \<in> set (models ?w'). global_key ?w' m \<notin> set read_only_globals \<longrightarrow>
             (\<exists>(k', m') \<in> set (models ?w'). global_key ?w' m' = global_key ?w' m
                \<and> map_of (global_scope ?w') (global_key ?w' m) = Some m')"
    if "exposure_enabled (config env)"
    using s that by (simp only: same key) blast
  have d: "\<forall>(k, m) \<in> set (models ?w'). global_key ?w' m \<notin> set read_only_globals \<longrightarrow>
             map_of (global_scope ?w') (global_key ?w' m) = Some m"
    if en: "exposure_enabled (config env)" and dm: "distinct (map (globalId \<circ> snd) modules)"
  proof (clarify)
    fix k m assume in1: "(k, m) \<in> set (models ?w')"
      and rw: "global_key ?w' m \<notin> set read_only_globals"
    with c [OF en] obtain k' m' where in2: "(k', m') \<in> set (models ?w')"
      and eq: "global_key ?w' m' = global_key ?w' m"
      and bound: "map_of (global_scope ?w') (global_key ?w' m) = Some m'"
      by blast
    have "distinct (map fst (models ?w'))" using s same by simp
    from stamped_key_inj [OF b this dm in2 in1 eq] bound
    show "map_of (global_scope ?w') (global_key ?w' m) = Some m" by simp
  qed
  have e: "global_scope ?w' = global_scope w" if "\<not> exposure_enabled (config env)"
    using s that same by (simp add: load_state_frame)
  from a b c d e show ?thesis by blast
qed

theorem registry_and_globals_witness:
  "loadModels env0 = LoadCallsBack Async [(None, modules0)]
   \<and> callbacks (trace (snd (initialize IndexJs env0 world0))) = callbacks (trace world0) @ [None]
   \<and> exposure_enabled (config env0)
   \<and> distinct (map (globalId \<circ> snd) modules0)
   \<and> models (snd (initialize IndexJs env0 world0))
       = [(''alpha'', (''Alpha'', JObj [])), (''beta'', (''Beta'', JArr [JNum 1, JObj []]))]
   \<and> global_scope (snd (initialize IndexJs env0 world0))
       = [(''Alpha'', (''Alpha'', JObj [])), (''Beta'', (''Beta'', JArr [JNum 1, JObj []]))]
   \<and> globalId_of (snd (initialize IndexJs env0 world0)) (''Alpha'', JObj []) = Some ''Alpha''
   \<and> identity_of (snd (initialize IndexJs env0 world0)) (''Alpha'', JObj []) = Some ''alpha''
   \<and> \<not> exposure_enabled (config (env0\<lparr>config := cfg0\<lparr>globals := JUndefined\<rparr>\<rparr>))
   \<and> global_scope (snd (initialize IndexJs
         (env0\<lparr>config := cfg0\<lparr>globals := JUndefined\<rparr>\<rparr>) world0)) = []"
  using registry_and_globals [of env0 Async None modules0 IndexJs world0]
  by (simp add: run_defs exposure_enabled_def)

text \<open>
  Where the code differs from the claim. Two definitions with the \<^verbatim>\<open>globalId\<close>
  \<^verbatim>\<open>'Dup'\<close>, for which \<^verbatim>\<open>mongoose.model\<close> returns two objects: both are registered, and
  \<^verbatim>\<open>Dup\<close> is bound to the second, so the first is not bound under its \<^verbatim>\<open>globalId\<close>.
  A definition with the \<^verbatim>\<open>globalId\<close> \<^verbatim>\<open>'NaN'\<close>: it is registered, and the assignment to
  the read-only global is ignored.
\<close>

theorem exposure_not_as_claimed:
  "exposure_enabled (config env0)
   \<and> callbacks (trace (snd (initialize IndexJs
         (env0\<lparr>loadModels := LoadCallsBack Async [(None, modules4)]\<rparr>) world0))) = [None]
   \<and> models (snd (initialize IndexJs
         (env0\<lparr>loadModels := LoadCallsBack Async [(None, modules4)]\<rparr>) world0))
       = [(''alpha'', (''Dup'', JObj [])),
          (''beta'', (''Dup'', JObj [(''name'', JStr ''String'')]))]
   \<and> globalId_of (snd (initialize IndexJs
         (env0\<lparr>loadModels := LoadCallsBack Async [(None, modules4)]\<rparr>) world0))
        (''Dup'', JObj []) = Some ''Dup''
   \<and> map_of (global_scope (snd (initialize IndexJs
         (env0\<lparr>loadModels := LoadCallsBack Async [(None, modules4)]\<rparr>) world0))) ''Dup''
       = Some (''Dup'', JObj [(''name'', JStr ''String'')])
   \<and> (''Dup'', JObj [(''name'', JStr ''String'')]) \<noteq> (''Dup'', JObj [])
   \<and> callbacks (trace (snd (initialize IndexJs
         (env0\<lparr>loadModels := LoadCallsBack Async [(None, modules5)]\<rparr>) world0))) = [None]
   \<and> models (snd (initialize IndexJs
         (env0\<lparr>loadModels := LoadCallsBack Async [(None, modules5)]\<rparr>) world0))
       = [(''nan'', (''NaN'', JObj []))]
   \<and> globalId_of (snd (initialize IndexJs
         (env0\<lparr>loadModels := LoadCallsBack Async [(None, modules5)]\<rparr>) world0))
        (''NaN'', JObj []) = Some ''NaN''
   \<and> global_scope (snd (initialize IndexJs
         (env0\<lparr>loadModels := LoadCallsBack Async [(None, modules5)]\<rparr>) world0)) = []"
  by (simp add: run_defs exposure_enabled_def)

end
